theory Spec2Isabelle
  imports Complex_Main "HOL-Library.Log_Nat"
begin

section \<open>The BLT parser of \<open>src/parser.js\<close>\<close>

text \<open>
  The function \<open>parse\<close> of \<open>src/parser.js\<close> turns the text of a BLT ballot file into
  an election record. It is embedded here function by function. A JavaScript string is
  a \<open>string\<close> (a list of code units; the model covers the code units below 256, so
  the white space of JavaScript is tab, line feed, vertical tab, form feed, carriage
  return, space and the no-break space 0xA0, and its line terminators are line feed and
  carriage return). \<open>undefined\<close> is \<open>None\<close>, and the one exception \<open>parse\<close> can throw,
  the \<open>TypeError\<close> of calling \<open>split\<close> on \<open>undefined\<close>, is \<open>Inl TypeError\<close>.
\<close>

subsection \<open>JavaScript values\<close>

text \<open>
  A JavaScript number, as far as \<open>Number(string)\<close> produces one: an IEEE 754 double.
  \<open>Num q\<close> is the finite double of value \<open>q\<close> other than negative zero (\<open>Number\<close> only
  builds it from the result of \<open>roundDouble\<close> below), \<open>NegZero\<close> is \<open>-0\<close>.
\<close>

datatype jsnum = NaN | Num rat | NegZero | PosInfinity | NegInfinity

datatype error = TypeError

record ranking =
  rank :: nat
  candidates :: "jsnum list"

record ballot =
  weight :: jsnum
  rankings :: "ranking list"

record candidate =
  name :: string
  number :: nat

text \<open>
  The object \<open>parse\<close> returns. Its property \<open>candidates\<close> (an object keyed by the
  candidate number) is the field \<open>candidatesObj\<close>, since \<open>candidates\<close> names the field of
  a ranking.
\<close>

record electionResult =
  withdrawnCandidates :: "jsnum list"
  numberOfCandidates :: "jsnum option"
  numberOfSeats :: "jsnum option"
  electionName :: "string option"
  ballots :: "ballot list"
  candidatesObj :: "nat \<rightharpoonup> candidate"

subsection \<open>Character classes of the regular expressions\<close>

definition isDigit :: "char \<Rightarrow> bool" where
  \<comment> \<open>\<open>\d\<close>\<close>
  "isDigit c = (c \<in> set ''0123456789'')"

definition isSpace :: "char \<Rightarrow> bool" where
  \<comment> \<open>\<open>\s\<close>, and what \<open>trim\<close> removes\<close>
  "isSpace c = (c \<in> set [CHR 0x09, CHR 0x0A, CHR 0x0B, CHR 0x0C, CHR 0x0D, CHR '' '', CHR 0xA0])"

definition isLineTerminator :: "char \<Rightarrow> bool" where
  \<comment> \<open>what \<open>.\<close> does not match\<close>
  "isLineTerminator c = (c = CHR 0x0A \<or> c = CHR 0x0D)"

subsection \<open>String and array methods\<close>

text \<open>
  \<open>s.split(sep)\<close> for a separator of one character. The array is never empty (the
  pieces are one more than the separators), so the last case below is never taken.
\<close>

fun split :: "'a \<Rightarrow> 'a list \<Rightarrow> 'a list list" where
  "split sep [] = [[]]"
| "split sep (c # cs) =
     (if c = sep then [] # split sep cs
      else (case split sep cs of
              piece # pieces \<Rightarrow> (c # piece) # pieces
            | [] \<Rightarrow> [[c]]))"

definition trim :: "string \<Rightarrow> string" where
  "trim s = rev (dropWhile isSpace (rev (dropWhile isSpace s)))"

text \<open>
  \<open>line.replace(/#.*$/, "")\<close>: the match starts at the first \<open>#\<close> from which \<open>.*\<close>
  reaches the end of the string, that is, with no line terminator after it (there is no
  \<open>m\<close> flag, so \<open>$\<close> is the end of the string only).
\<close>

fun stripComment :: "string \<Rightarrow> string" where
  "stripComment [] = []"
| "stripComment (c # cs) =
     (if c = CHR ''#'' \<and> list_all (\<lambda>d. \<not> isLineTerminator d) cs then []
      else c # stripComment cs)"

definition stripQuotes :: "string \<Rightarrow> string" where
  \<comment> \<open>\<open>.replace(/"/g, "")\<close>\<close>
  "stripQuotes s = filter (\<lambda>c. c \<noteq> CHR 0x22) s"

text \<open>\<open>xs.slice(start, end)\<close>, with JavaScript's treatment of negative and large indices.\<close>

definition slice :: "'a list \<Rightarrow> int \<Rightarrow> int \<Rightarrow> 'a list" where
  "slice xs start end =
     (let len = int (length xs);
          k = (if start < 0 then max (len + start) 0 else min start len);
          final = (if end < 0 then max (len + end) 0 else min end len)
      in take (nat (final - k)) (drop (nat k) xs))"

text \<open>\<open>xs.findIndex(p)\<close>: the first index whose element satisfies \<open>p\<close>, or \<open>-1\<close>.\<close>

fun findIndex :: "('a \<Rightarrow> bool) \<Rightarrow> 'a list \<Rightarrow> int" where
  "findIndex p [] = - 1"
| "findIndex p (x # xs) =
     (if p x then 0 else (let r = findIndex p xs in if r < 0 then - 1 else r + 1))"

text \<open>\<open>xs[i]\<close>: \<open>undefined\<close> outside the array.\<close>

definition elementAt :: "'a list \<Rightarrow> int \<Rightarrow> 'a option" where
  "elementAt xs i = (if 0 \<le> i \<and> i < int (length xs) then Some (xs ! nat i) else None)"

subsection \<open>\<open>Number(string)\<close>\<close>

text \<open>
  \<open>Number\<close> applied to a string follows the grammar \<open>StringNumericLiteral\<close> of
  ECMAScript: white space around, then nothing (the value 0), a binary, octal or
  hexadecimal integer, or an optionally signed decimal literal or \<open>Infinity\<close>;
  anything else is \<open>NaN\<close>. The mathematical value of the literal is rounded to the
  nearest double, ties to the even significand, as the engines do it.
\<close>

text \<open>
  The exponent of a positive rational: the \<open>e\<close> with \<open>2 ^ e \<le> x < 2 ^ (e + 1)\<close>. From
  the bit lengths of numerator and denominator it is \<open>k\<close> or \<open>k - 1\<close>.
\<close>

definition binaryExponent :: "rat \<Rightarrow> int" where
  "binaryExponent x =
     (let k = bitlen (fst (quotient_of x)) - bitlen (snd (quotient_of x))
      in if 2 powi k \<le> x then k else k - 1)"

definition roundHalfEven :: "rat \<Rightarrow> int" where
  "roundHalfEven x =
     (let f = \<lfloor>x\<rfloor>; r = x - of_int f
      in if r < 1 / 2 then f else if 1 / 2 < r then f + 1 else if even f then f else f + 1)"

text \<open>
  The double nearest to a rational \<open>x \<ge> 0\<close>. Doubles have 53 significant bits, so
  those around \<open>x\<close> are the multiples of \<open>2 ^ (e - 52)\<close>, and of \<open>2 ^ (- 1074)\<close> in
  the subnormal range (exponents below \<open>- 1022\<close>); a result of exponent above 1023
  is beyond the largest double and is \<open>Infinity\<close>.
\<close>

definition roundDouble :: "rat \<Rightarrow> jsnum" where
  "roundDouble x =
     (if x = 0 then Num 0
      else
        (let p = max (binaryExponent x) (- 1022) - 52;
             y = of_int (roundHalfEven (x / 2 powi p)) * 2 powi p
         in if 1024 \<le> binaryExponent y then PosInfinity else Num y))"

definition digitVal :: "char \<Rightarrow> int" where
  "digitVal c =
     (if isDigit c then of_char c - 48
      else if c \<in> set ''abcdef'' then of_char c - 87
      else if c \<in> set ''ABCDEF'' then of_char c - 55
      else 0)"

definition isBaseDigit :: "int \<Rightarrow> char \<Rightarrow> bool" where
  "isBaseDigit base c = ((isDigit c \<or> c \<in> set ''abcdefABCDEF'') \<and> digitVal c < base)"

definition digitsValue :: "int \<Rightarrow> string \<Rightarrow> int" where
  "digitsValue base ds = foldl (\<lambda>acc c. acc * base + digitVal c) 0 ds"

definition nonDecimalLiteral :: "string \<Rightarrow> int option" where
  "nonDecimalLiteral s =
     (case s of
        z # x # ds \<Rightarrow>
          (let base = (if x \<in> set ''bB'' then 2 else if x \<in> set ''oO'' then 8
                       else if x \<in> set ''xX'' then 16 else 0 :: int)
           in if z = CHR ''0'' \<and> ds \<noteq> [] \<and> base \<noteq> 0 \<and> list_all (isBaseDigit base) ds
              then Some (digitsValue base ds) else None)
      | _ \<Rightarrow> None)"

definition signedInteger :: "string \<Rightarrow> int option" where
  "signedInteger s =
     (let neg = (case s of c # _ \<Rightarrow> c = CHR ''-'' | [] \<Rightarrow> False);
          ds = (case s of c # r \<Rightarrow> if c = CHR ''+'' \<or> c = CHR ''-'' then r else s | [] \<Rightarrow> s)
      in if ds \<noteq> [] \<and> list_all isDigit ds
         then Some (if neg then - digitsValue 10 ds else digitsValue 10 ds)
         else None)"

definition exponentPart :: "string \<Rightarrow> int option" where
  "exponentPart s =
     (case s of
        [] \<Rightarrow> Some 0
      | c # r \<Rightarrow> if c = CHR ''e'' \<or> c = CHR ''E'' then signedInteger r else None)"

definition scale10 :: "int \<Rightarrow> int \<Rightarrow> rat" where
  "scale10 m e =
     (if 0 \<le> e then of_int (m * 10 ^ nat e) else of_int m / of_int (10 ^ nat (- e)))"

definition unsignedDecimalLiteral :: "string \<Rightarrow> jsnum option" where
  "unsignedDecimalLiteral s =
     (if s = ''Infinity'' then Some PosInfinity
      else
        (let ip = takeWhile isDigit s;
             r1 = dropWhile isDigit s;
             fp = (case r1 of c # t \<Rightarrow> if c = CHR ''.'' then takeWhile isDigit t else [] | [] \<Rightarrow> []);
             r2 = (case r1 of c # t \<Rightarrow> if c = CHR ''.'' then dropWhile isDigit t else r1 | [] \<Rightarrow> r1)
         in if ip = [] \<and> fp = [] then None
            else (case exponentPart r2 of
                    None \<Rightarrow> None
                  | Some e \<Rightarrow>
                      Some (roundDouble (scale10 (digitsValue 10 (ip @ fp)) (e - int (length fp)))))))"

fun negate :: "jsnum \<Rightarrow> jsnum" where
  "negate NaN = NaN"
| "negate (Num q) = (if q = 0 then NegZero else Num (- q))"
| "negate NegZero = Num 0"
| "negate PosInfinity = NegInfinity"
| "negate NegInfinity = PosInfinity"

definition Number :: "string \<Rightarrow> jsnum" where
  "Number s =
     (let t = trim s
      in if t = [] then Num 0
         else (case nonDecimalLiteral t of
                 Some n \<Rightarrow> roundDouble (of_int n)
               | None \<Rightarrow>
                   (case t of
                      c # u \<Rightarrow>
                        if c = CHR ''+'' then
                          (case unsignedDecimalLiteral u of None \<Rightarrow> NaN | Some v \<Rightarrow> v)
                        else if c = CHR ''-'' then
                          (case unsignedDecimalLiteral u of None \<Rightarrow> NaN | Some v \<Rightarrow> negate v)
                        else
                          (case unsignedDecimalLiteral t of None \<Rightarrow> NaN | Some v \<Rightarrow> v)
                    | [] \<Rightarrow> NaN)))"

subsection \<open>The two tests of \<open>parse\<close>\<close>

text \<open>
  \<open>/^(-\d+\s*)+$/.test(line)\<close>: the whole line is one or more groups of a minus sign,
  digits and optional white space. The states are the positions in a group: before its
  minus sign (at the very start only), after the minus sign, inside the digits, inside
  the white space.
\<close>

datatype groupState = AtStart | AfterMinus | InDigits | InSpace

fun withdrawnGroups :: "groupState \<Rightarrow> string \<Rightarrow> bool" where
  "withdrawnGroups st [] = (st = InDigits \<or> st = InSpace)"
| "withdrawnGroups AtStart (c # cs) = (c = CHR ''-'' \<and> withdrawnGroups AfterMinus cs)"
| "withdrawnGroups AfterMinus (c # cs) = (isDigit c \<and> withdrawnGroups InDigits cs)"
| "withdrawnGroups InDigits (c # cs) =
     (if isDigit c then withdrawnGroups InDigits cs
      else if isSpace c then withdrawnGroups InSpace cs
      else c = CHR ''-'' \<and> withdrawnGroups AfterMinus cs)"
| "withdrawnGroups InSpace (c # cs) =
     (if isSpace c then withdrawnGroups InSpace cs
      else c = CHR ''-'' \<and> withdrawnGroups AfterMinus cs)"

text \<open>
  The test is applied to \<open>theOtherLines[0]\<close>, which is \<open>undefined\<close> when there is no
  line after the header; \<open>test\<close> then reads the string \<open>undefined\<close>, which does not match.
\<close>

definition isWithdrawnLine :: "string option \<Rightarrow> bool" where
  "isWithdrawnLine l = (case l of None \<Rightarrow> False | Some line \<Rightarrow> withdrawnGroups AtStart line)"

definition isTie :: "string \<Rightarrow> bool" where
  \<comment> \<open>\<open>/^\d+=\d+$/.test(ranking)\<close>\<close>
  "isTie ranking =
     (let a = takeWhile isDigit ranking; r = dropWhile isDigit ranking
      in a \<noteq> [] \<and> (case r of c # b \<Rightarrow> c = CHR ''='' \<and> b \<noteq> [] \<and> list_all isDigit b | [] \<Rightarrow> False))"

definition isSkip :: "string \<Rightarrow> bool" where
  "isSkip ranking = (ranking = ''-'')"

subsection \<open>\<open>parse\<close>\<close>

definition cleanLine :: "string \<Rightarrow> string" where
  \<comment> \<open>the function mapped over the lines\<close>
  "cleanLine line = trim (stripQuotes (stripComment line))"

definition cleanedLines :: "string \<Rightarrow> string list" where
  "cleanedLines bltText =
     filter (\<lambda>line. length line > 0) (map cleanLine (split CHR 0x0A bltText))"

definition withdrawnNumbers :: "string \<Rightarrow> jsnum list" where
  \<comment> \<open>what is made of the line that \<open>theOtherLines.shift()\<close> returns\<close>
  "withdrawnNumbers line =
     map (\<lambda>chars. Number (remove1 CHR ''-'' (trim chars)))
       (filter (\<lambda>chars. length (trim chars) > 0) (split CHR '' '' line))"

text \<open>
  The conditional that defines \<open>withdrawnCandidates\<close> changes \<open>theOtherLines\<close> too
  (\<open>shift\<close> removes its first element): the pair of the constant and the array after it.
\<close>

definition shiftWithdrawn :: "string list \<Rightarrow> jsnum list \<times> string list" where
  "shiftWithdrawn theOtherLines =
     (if isWithdrawnLine (elementAt theOtherLines 0)
      then (withdrawnNumbers (hd theOtherLines), tl theOtherLines)
      else ([], theOtherLines))"

definition indexOfEndOfBallots :: "string list \<Rightarrow> int" where
  "indexOfEndOfBallots theOtherLines = findIndex (\<lambda>line. line = ''0'') theOtherLines"

definition ballotLines :: "string list \<Rightarrow> string list" where
  "ballotLines theOtherLines = slice theOtherLines 0 (indexOfEndOfBallots theOtherLines)"

definition candidateLines :: "string list \<Rightarrow> string list" where
  "candidateLines theOtherLines =
     slice theOtherLines (indexOfEndOfBallots theOtherLines + 1) (int (length theOtherLines) - 1)"

definition candidatesOf :: "string list \<Rightarrow> (nat \<rightharpoonup> candidate)" where
  \<comment> \<open>the \<open>reduce\<close> over the candidate lines, from the empty object\<close>
  "candidatesOf ls =
     foldl (\<lambda>accumulator (index, line).
              accumulator(index + 1 \<mapsto> \<lparr>name = line, number = index + 1\<rparr>))
       Map.empty (enumerate 0 ls)"

definition processRankings :: "string list \<Rightarrow> ranking list" where
  "processRankings candidateRankings =
     map (\<lambda>(index, ranking).
            if isTie ranking then
              \<lparr>rank = index + 1, candidates = map Number (split CHR ''='' ranking)\<rparr>
            else if isSkip ranking then \<lparr>rank = index + 1, candidates = []\<rparr>
            else \<lparr>rank = index + 1, candidates = [Number ranking]\<rparr>)
       (enumerate 0 candidateRankings)"

text \<open>
  One ballot line. The array that \<open>split\<close> returns is never empty, so the first
  element (the constant \<open>weight\<close> of the source, \<open>weightChars\<close> here) is always a
  string; the first case is what the destructuring would give for an empty array
  (\<open>Number(undefined)\<close> is \<open>NaN\<close>).
\<close>

definition ballotOf :: "string \<Rightarrow> ballot" where
  "ballotOf line =
     (case map trim (split CHR '' '' line) of
        [] \<Rightarrow> \<lparr>weight = NaN, rankings = processRankings []\<rparr>
      | weightChars # candidateRankings \<Rightarrow>
          \<lparr>weight = Number weightChars,
           rankings = processRankings
             (slice candidateRankings 0 (int (length candidateRankings) - 1))\<rparr>)"

definition parse :: "string \<Rightarrow> error + electionResult" where
  "parse bltText =
     (case cleanedLines bltText of
        [] \<Rightarrow> Inl TypeError
      | firstLine # rest \<Rightarrow>
          (let header = map Number (split CHR '' '' firstLine);
               theOtherLines = snd (shiftWithdrawn rest)
           in Inr \<lparr>withdrawnCandidates = fst (shiftWithdrawn rest),
                   numberOfCandidates = elementAt header 0,
                   numberOfSeats = elementAt header 1,
                   electionName = elementAt theOtherLines (int (length theOtherLines) - 1),
                   ballots = map ballotOf (ballotLines theOtherLines),
                   candidatesObj = candidatesOf (candidateLines theOtherLines)\<rparr>))"

subsection \<open>Example inputs\<close>

text \<open>
  The constants of the body of \<open>parse\<close>, side by side, for evaluating \<open>parse\<close> on the
  examples: the cleaned lines, \<open>withdrawnCandidates\<close>, the two header numbers,
  \<open>electionName\<close>, \<open>ballots\<close> and \<open>candidateLines\<close>.
\<close>

definition parseConstants ::
  "string \<Rightarrow> string list \<times> jsnum list \<times> jsnum option \<times> jsnum option \<times> string option
     \<times> ballot list \<times> string list" where
  "parseConstants bltText =
     (let lines = cleanedLines bltText;
          header = map Number (split CHR '' '' (hd lines));
          theOtherLines = snd (shiftWithdrawn (tl lines))
      in (lines, fst (shiftWithdrawn (tl lines)), elementAt header 0, elementAt header 1,
          elementAt theOtherLines (int (length theOtherLines) - 1),
          map ballotOf (ballotLines theOtherLines), candidateLines theOtherLines))"

definition unlines :: "string list \<Rightarrow> string" where
  "unlines ls = concat (map (\<lambda>l. l @ ''\<newline>'') ls)"

definition quoted :: "string \<Rightarrow> string" where
  "quoted s = CHR 0x22 # s @ [CHR 0x22]"

text \<open>Scenario A of the specification, with the comments of the annotated example.\<close>

definition scenarioA :: string where
  "scenarioA = unlines
     [''4 2          # Four candidates are competing for two seats'',
      ''-2           # Bob has withdrawn'',
      ''1 4 1 3 2 0  # First ballot'',
      ''6 4 3 0      # Amy first, Chuck second with a weight of 6'',
      ''1 0          # An empty ballot'',
      ''1 2 - 3 0    # Bob first, no one second, Chuck third'',
      ''1 2=3 1 0    # Bob and Chuck first, Diane second'',
      ''0            # End of ballots marker'',
      quoted ''Diane'' @ ''      # Candidate 1'',
      quoted ''Bob'',
      quoted ''Chuck'',
      quoted ''Amy'',
      quoted ''Gardening Club Election'' @ ''  # Title'']"

definition scenarioAResult :: electionResult where
  "scenarioAResult =
     \<lparr>withdrawnCandidates = [Num 2],
      numberOfCandidates = Some (Num 4),
      numberOfSeats = Some (Num 2),
      electionName = Some ''Gardening Club Election'',
      ballots =
        [\<lparr>weight = Num 1,
          rankings = [\<lparr>rank = 1, candidates = [Num 4]\<rparr>, \<lparr>rank = 2, candidates = [Num 1]\<rparr>,
                      \<lparr>rank = 3, candidates = [Num 3]\<rparr>, \<lparr>rank = 4, candidates = [Num 2]\<rparr>]\<rparr>,
         \<lparr>weight = Num 6,
          rankings = [\<lparr>rank = 1, candidates = [Num 4]\<rparr>, \<lparr>rank = 2, candidates = [Num 3]\<rparr>]\<rparr>,
         \<lparr>weight = Num 1, rankings = []\<rparr>,
         \<lparr>weight = Num 1,
          rankings = [\<lparr>rank = 1, candidates = [Num 2]\<rparr>, \<lparr>rank = 2, candidates = []\<rparr>,
                      \<lparr>rank = 3, candidates = [Num 3]\<rparr>]\<rparr>,
         \<lparr>weight = Num 1,
          rankings = [\<lparr>rank = 1, candidates = [Num 2, Num 3]\<rparr>,
                      \<lparr>rank = 2, candidates = [Num 1]\<rparr>]\<rparr>],
      candidatesObj = candidatesOf [''Diane'', ''Bob'', ''Chuck'', ''Amy'']\<rparr>"

section \<open>Auxiliary facts\<close>

subsection \<open>Strings, digits and \<open>Number\<close>\<close>

lemma split_not_Nil: "split sep s \<noteq> []"
  by (induction s) (simp_all split: list.splits)

lemma split_no_sep: "sep \<notin> set s \<Longrightarrow> split sep s = [s]"
  by (induction s) auto

lemma split_append_sep: "sep \<notin> set a \<Longrightarrow> split sep (a @ sep # b) = a # split sep b"
  by (induction a) auto

lemma isDigit_not_special:
  "isDigit c \<Longrightarrow> c \<noteq> CHR ''='' \<and> c \<noteq> CHR ''-'' \<and> c \<noteq> CHR ''+'' \<and> c \<noteq> CHR '' '' \<and> c \<noteq> CHR ''I'' \<and> \<not> isSpace c
     \<and> c \<notin> set ''bBoOxX''"
  by (auto simp: isDigit_def isSpace_def)

lemma digits_no_eq: "list_all isDigit s \<Longrightarrow> CHR ''='' \<notin> set s"
  using isDigit_not_special by (auto simp: list_all_iff)

lemma isTie_parts:
  assumes "isTie t"
  shows "takeWhile isDigit t @ CHR ''='' # tl (dropWhile isDigit t) = t"
    and "takeWhile isDigit t \<noteq> []"
    and "tl (dropWhile isDigit t) \<noteq> []"
    and "list_all isDigit (takeWhile isDigit t)"
    and "list_all isDigit (tl (dropWhile isDigit t))"
proof -
  from assms obtain b where r: "dropWhile isDigit t = CHR ''='' # b"
    and b: "b \<noteq> []" "list_all isDigit b" and a: "takeWhile isDigit t \<noteq> []"
    by (auto simp: isTie_def Let_def split: list.splits)
  have "takeWhile isDigit t @ dropWhile isDigit t = t" by simp
  then show "takeWhile isDigit t @ CHR ''='' # tl (dropWhile isDigit t) = t"
    by (simp add: r)
  show "takeWhile isDigit t \<noteq> []" by (rule a)
  show "tl (dropWhile isDigit t) \<noteq> []" by (simp add: r b)
  show "list_all isDigit (takeWhile isDigit t)"
    unfolding list_all_iff by (blast dest: set_takeWhileD)
  show "list_all isDigit (tl (dropWhile isDigit t))" by (simp add: r b)
qed

lemma isTie_split:
  assumes "isTie t"
  shows "split CHR ''='' t = [takeWhile isDigit t, tl (dropWhile isDigit t)]"
proof -
  let ?a = "takeWhile isDigit t" and ?b = "tl (dropWhile isDigit t)"
  have "split CHR ''='' (?a @ CHR ''='' # ?b) = ?a # split CHR ''='' ?b"
    by (intro split_append_sep digits_no_eq isTie_parts(4) assms)
  also have "split CHR ''='' ?b = [?b]"
    by (intro split_no_sep digits_no_eq isTie_parts(5) assms)
  finally show ?thesis unfolding isTie_parts(1) [OF assms] .
qed

lemma trim_id:
  assumes "s \<noteq> []" "\<not> isSpace (hd s)" "\<not> isSpace (last s)"
  shows "trim s = s"
proof -
  have 1: "dropWhile isSpace s = s" using assms by (cases s) auto
  have "rev s \<noteq> []" "\<not> isSpace (hd (rev s))" using assms by (auto simp: hd_rev)
  then have 2: "dropWhile isSpace (rev s) = rev s" by (cases "rev s") auto
  show ?thesis by (simp add: trim_def 1 2)
qed

lemma trim_digits: "list_all isDigit ds \<Longrightarrow> trim ds = ds"
proof (cases "ds = []")
  case True then show ?thesis by (simp add: trim_def)
next
  case False
  assume "list_all isDigit ds"
  with False have "isDigit (hd ds)" "isDigit (last ds)" by (auto simp: list_all_iff)
  then show ?thesis using False isDigit_not_special by (intro trim_id) auto
qed

lemma nonDecimalLiteral_digits:
  assumes "list_all isDigit ds"
  shows "nonDecimalLiteral ds = None"
proof (cases ds)
  case Nil
  then show ?thesis by (simp add: nonDecimalLiteral_def)
next
  case outer: (Cons z r)
  show ?thesis
  proof (cases r)
    case Nil
    with outer show ?thesis by (simp add: nonDecimalLiteral_def)
  next
    case (Cons x u)
    with assms outer have "isDigit x" by simp
    then have "x \<notin> set ''bBoOxX''" using isDigit_not_special by blast
    then show ?thesis using Cons outer by (simp add: nonDecimalLiteral_def)
  qed
qed

subsection \<open>Rounding to a double\<close>

lemma binaryExponent_bounds:
  assumes "0 < x"
  shows "2 powi binaryExponent x \<le> x \<and> x < 2 powi (binaryExponent x + 1)"
proof -
  obtain a b where q: "quotient_of x = (a, b)" by (cases "quotient_of x")
  then have b: "0 < b" and x: "x = of_int a / of_int b"
    using quotient_of_denom_pos quotient_of_div by auto
  with assms have a: "0 < a" by (simp add: zero_less_divide_iff)
  let ?la = "bitlen a" and ?lb = "bitlen b"
  have la: "1 \<le> ?la" and lb: "1 \<le> ?lb" using a b by (auto simp: bitlen_alt_def)
  have a1: "(2::rat) powi (?la - 1) \<le> of_int a"
  proof -
    have "(of_int (2 ^ nat (?la - 1)) :: rat) \<le> of_int a"
      using bitlen_bounds [OF a] by (simp only: of_int_le_iff)
    then show ?thesis using la by (simp add: power_int_def)
  qed
  have a2: "of_int a < (2::rat) powi ?la"
  proof -
    have "(of_int a :: rat) < of_int (2 ^ nat ?la)"
      using bitlen_bounds [OF a] by (simp only: of_int_less_iff)
    then show ?thesis using la by (simp add: power_int_def)
  qed
  have b1: "(2::rat) powi (?lb - 1) \<le> of_int b"
  proof -
    have "(of_int (2 ^ nat (?lb - 1)) :: rat) \<le> of_int b"
      using bitlen_bounds [OF b] by (simp only: of_int_le_iff)
    then show ?thesis using lb by (simp add: power_int_def)
  qed
  have b2: "of_int b < (2::rat) powi ?lb"
  proof -
    have "(of_int b :: rat) < of_int (2 ^ nat ?lb)"
      using bitlen_bounds [OF b] by (simp only: of_int_less_iff)
    then show ?thesis using lb by (simp add: power_int_def)
  qed
  have bpos: "(0::rat) < of_int b" using b by simp
  have lo: "(2::rat) powi (?la - ?lb - 1) < x"
  proof -
    have "(2::rat) powi (?la - ?lb - 1) * of_int b < 2 powi (?la - ?lb - 1) * 2 powi ?lb"
      using b2 by simp
    also have "\<dots> = 2 powi (?la - 1)" by (simp flip: power_int_add)
    also have "\<dots> \<le> of_int a" by (rule a1)
    finally show ?thesis using bpos by (simp add: x pos_less_divide_eq)
  qed
  have hi: "x < (2::rat) powi (?la - ?lb + 1)"
  proof -
    have "of_int a < (2::rat) powi ?la" by (rule a2)
    also have "\<dots> = 2 powi (?la - ?lb + 1) * 2 powi (?lb - 1)" by (simp flip: power_int_add)
    also have "\<dots> \<le> 2 powi (?la - ?lb + 1) * of_int b"
      using b1 by simp
    finally show ?thesis using bpos by (simp add: x pos_divide_less_eq)
  qed
  show ?thesis
  proof (cases "(2::rat) powi (?la - ?lb) \<le> x")
    case True
    then have "binaryExponent x = ?la - ?lb" by (simp add: binaryExponent_def q)
    with True hi show ?thesis by simp
  next
    case False
    then have "binaryExponent x = ?la - ?lb - 1" by (simp add: binaryExponent_def q)
    with False lo show ?thesis by simp
  qed
qed

lemma binaryExponent_less:
  assumes "0 < x" and "x < 2 powi k"
  shows "binaryExponent x < k"
proof (rule ccontr)
  assume "\<not> binaryExponent x < k"
  then have "(2::rat) powi k \<le> 2 powi binaryExponent x"
    by (intro power_int_increasing) simp_all
  with binaryExponent_bounds [OF assms(1)] assms(2) show False by simp
qed

lemma roundHalfEven_of_int: "roundHalfEven (of_int m) = m"
  by (simp add: roundHalfEven_def)

lemma roundHalfEven_nonneg: "0 \<le> x \<Longrightarrow> 0 \<le> roundHalfEven x"
  by (simp add: roundHalfEven_def Let_def)

lemma roundDouble_int_less:
  assumes "0 \<le> n" and "n < 2 ^ 53"
  shows "roundDouble (of_int n) = Num (of_int n)"
proof (cases "n = 0")
  case True
  then show ?thesis by (simp add: roundDouble_def)
next
  case False
  let ?x = "of_int n :: rat"
  have pos: "0 < ?x" using False assms(1) by simp
  have "?x < of_int (2 ^ 53)" using assms(2) by (simp only: of_int_less_iff)
  then have lt: "?x < 2 powi 53" by simp
  define p where "p = max (binaryExponent ?x) (- 1022) - 52"
  have "binaryExponent ?x < 53" by (rule binaryExponent_less [OF pos lt])
  then have p: "p \<le> 0" by (simp add: p_def)
  have "?x / 2 powi p = ?x * 2 powi (- p)" by (simp add: power_int_minus field_simps)
  also have "\<dots> = ?x * 2 ^ nat (- p)" using p by (simp add: power_int_def)
  also have "\<dots> = of_int (n * 2 ^ nat (- p))" by simp
  finally have "roundHalfEven (?x / 2 powi p) = n * 2 ^ nat (- p)"
    by (simp only: roundHalfEven_of_int)
  then have "of_int (roundHalfEven (?x / 2 powi p)) * 2 powi p
      = ?x * (2 powi (- p) * 2 powi p)"
    using p by (simp add: power_int_def)
  also have "\<dots> = ?x" by (simp flip: power_int_add)
  finally have y: "of_int (roundHalfEven (?x / 2 powi p)) * 2 powi p = ?x" .
  have "binaryExponent ?x < 1024" using \<open>binaryExponent ?x < 53\<close> by simp
  then show ?thesis
    using False by (simp add: roundDouble_def Let_def p_def [symmetric] y)
qed

lemma roundDouble_int:
  assumes "0 \<le> n" and "n \<le> 2 ^ 53"
  shows "roundDouble (of_int n) = Num (of_int n)"
proof (cases "n = 2 ^ 53")
  case True
  have "roundDouble 9007199254740992 = Num 9007199254740992" by code_simp
  with True show ?thesis by simp
next
  case False
  with assms have "0 \<le> n" "n < 2 ^ 53" by simp_all
  then show ?thesis by (rule roundDouble_int_less)
qed

lemma roundDouble_nonneg:
  assumes "0 \<le> x"
  shows "roundDouble x = PosInfinity \<or> (\<exists>q\<ge>0. roundDouble x = Num q)"
proof -
  have "0 \<le> of_int (roundHalfEven (x / 2 powi p)) * (2::rat) powi p" for p
    using assms by (intro mult_nonneg_nonneg) (simp_all add: roundHalfEven_nonneg)
  then show ?thesis by (auto simp: roundDouble_def Let_def)
qed

subsection \<open>\<open>Number\<close> of a string of digits\<close>

lemma digitVal_nonneg: "0 \<le> digitVal c"
  by (auto simp: digitVal_def isDigit_def)

lemma foldl_digits_nonneg:
  "0 \<le> base \<Longrightarrow> 0 \<le> acc \<Longrightarrow> 0 \<le> foldl (\<lambda>acc c. acc * base + digitVal c) acc ds"
  by (induction ds arbitrary: acc) (simp_all add: digitVal_nonneg)

lemma digitsValue_nonneg: "0 \<le> base \<Longrightarrow> 0 \<le> digitsValue base ds"
  unfolding digitsValue_def by (rule foldl_digits_nonneg) simp_all

lemma unsignedDecimalLiteral_digits:
  assumes "ds \<noteq> []" "list_all isDigit ds"
  shows "unsignedDecimalLiteral ds = Some (roundDouble (of_int (digitsValue 10 ds)))"
proof -
  have tw: "takeWhile isDigit ds = ds" "dropWhile isDigit ds = []"
    using assms(2) by (auto simp: list_all_iff)
  have "ds \<noteq> ''Infinity''" using assms(2) by (auto simp: isDigit_def)
  then show ?thesis using assms(1)
    by (simp add: unsignedDecimalLiteral_def tw exponentPart_def scale10_def)
qed

lemma Number_digits:
  assumes "ds \<noteq> []" "list_all isDigit ds"
  shows "Number ds = roundDouble (of_int (digitsValue 10 ds))"
proof -
  obtain c u where cu: "ds = c # u" using assms(1) by (cases ds) auto
  with assms(2) have "isDigit c" by simp
  then have "c \<noteq> CHR ''+''" "c \<noteq> CHR ''-''" using isDigit_not_special by auto
  then have "(case ds of [] \<Rightarrow> NaN | c # u \<Rightarrow>
                 if c = CHR ''+'' then
                   (case unsignedDecimalLiteral u of None \<Rightarrow> NaN | Some v \<Rightarrow> v)
                 else if c = CHR ''-'' then
                   (case unsignedDecimalLiteral u of None \<Rightarrow> NaN | Some v \<Rightarrow> negate v)
                 else
                   (case unsignedDecimalLiteral ds of None \<Rightarrow> NaN | Some v \<Rightarrow> v))
          = roundDouble (of_int (digitsValue 10 ds))"
    unfolding unsignedDecimalLiteral_digits [OF assms] by (simp add: cu)
  then show ?thesis
    using assms(1)
    by (simp add: Number_def trim_digits [OF assms(2)] nonDecimalLiteral_digits [OF assms(2)])
qed

lemma Number_digits_exact:
  assumes "ds \<noteq> []" "list_all isDigit ds" "digitsValue 10 ds \<le> 2 ^ 53"
  shows "Number ds = Num (of_int (digitsValue 10 ds))"
  unfolding Number_digits [OF assms(1,2)] by (rule roundDouble_int [OF _ assms(3)]) (simp add: digitsValue_nonneg)

lemma Number_digits_nonneg:
  assumes "ds \<noteq> []" "list_all isDigit ds"
  shows "Number ds = PosInfinity \<or> (\<exists>v\<ge>0. Number ds = Num v)"
  unfolding Number_digits [OF assms] by (rule roundDouble_nonneg) (simp add: digitsValue_nonneg)

lemma length_processRankings: "length (processRankings toks) = length toks"
  by (simp add: processRankings_def)

lemma nth_processRankings:
  "i < length toks \<Longrightarrow>
   processRankings toks ! i =
     (if isTie (toks ! i) then
        \<lparr>rank = i + 1, candidates = map Number (split CHR ''='' (toks ! i))\<rparr>
      else if isSkip (toks ! i) then \<lparr>rank = i + 1, candidates = []\<rparr>
      else \<lparr>rank = i + 1, candidates = [Number (toks ! i)]\<rparr>)"
  by (simp add: processRankings_def nth_enumerate_eq)

subsection \<open>Arrays\<close>

lemma slice_0_butlast: "slice xs 0 (int (length xs) - 1) = butlast xs"
  by (cases "xs = []") (simp_all add: slice_def butlast_conv_take nat_diff_distrib')

lemma slice_0_minus1: "slice xs 0 (- 1) = butlast xs"
  by (cases "xs = []") (simp_all add: slice_def butlast_conv_take nat_diff_distrib' max_def)

lemma slice_0_nat: "i \<le> length xs \<Longrightarrow> slice xs 0 (int i) = take i xs"
  by (simp add: slice_def min_def)

lemma slice_after:
  assumes "i < length xs"
  shows "slice xs (int i + 1) (int (length xs) - 1) = butlast (drop (Suc i) xs)"
proof -
  have "nat (int (length xs) - 1 - (int i + 1)) = length xs - Suc i - 1"
    using assms by linarith
  moreover have "nat (int i + 1) = Suc i" by linarith
  ultimately show ?thesis
    using assms by (simp add: slice_def Let_def min_def butlast_conv_take)
qed

lemma findIndex_none: "\<forall>x\<in>set xs. \<not> p x \<Longrightarrow> findIndex p xs = - 1"
  by (induction xs) (simp_all add: Let_def)

lemma findIndex_first:
  "\<exists>x\<in>set xs. p x \<Longrightarrow>
   \<exists>i<length xs. findIndex p xs = int i \<and> p (xs ! i) \<and> (\<forall>j<i. \<not> p (xs ! j))"
proof (induction xs)
  case Nil
  then show ?case by simp
next
  case (Cons x xs)
  show ?case
  proof (cases "p x")
    case True
    then show ?thesis by (intro exI [of _ 0]) simp
  next
    case False
    with Cons.prems have "\<exists>x\<in>set xs. p x" by simp
    from Cons.IH [OF this] obtain i where i: "i < length xs" "findIndex p xs = int i"
      "p (xs ! i)" "\<forall>j<i. \<not> p (xs ! j)" by blast
    have "\<forall>j<Suc i. \<not> p ((x # xs) ! j)"
      using False i(4) by (auto simp: less_Suc_eq_0_disj)
    then show ?thesis
      using False i by (intro exI [of _ "Suc i"]) (simp add: Let_def)
  qed
qed

lemma foldl_candidates:
  assumes f: "\<And>accumulator index line.
    f accumulator (index, line) = accumulator(index + 1 \<mapsto> \<lparr>name = line, number = index + 1\<rparr>)"
  shows "foldl f m (enumerate k ls) n =
     (if k < n \<and> n \<le> k + length ls then Some \<lparr>name = ls ! (n - k - 1), number = n\<rparr> else m n)"
proof (induction ls arbitrary: k m)
  case Nil
  then show ?case by auto
next
  case (Cons l ls)
  have step: "foldl f m (enumerate k (l # ls)) n =
      foldl f (m(k + 1 \<mapsto> \<lparr>name = l, number = k + 1\<rparr>)) (enumerate (Suc k) ls) n"
    by (simp add: f)
  show ?case
  proof (cases "n = Suc k")
    case True
    then show ?thesis unfolding step Cons.IH by simp
  next
    case False
    then have "k < n \<and> n \<le> k + length (l # ls) \<longleftrightarrow> Suc k < n \<and> n \<le> Suc k + length ls"
      by auto
    moreover have "Suc k < n \<Longrightarrow> (l # ls) ! (n - k - 1) = ls ! (n - Suc k - 1)"
      by (cases "n - k - 1") auto
    ultimately show ?thesis using False unfolding step Cons.IH by simp
  qed
qed

lemma candidatesOf_apply:
  "candidatesOf ls n =
     (if 1 \<le> n \<and> n \<le> length ls then Some \<lparr>name = ls ! (n - 1), number = n\<rparr> else None)"
  unfolding candidatesOf_def by (subst foldl_candidates) (simp_all add: Suc_le_eq)

subsection \<open>Ballots and the result\<close>

lemma rankings_ballotOf:
  "rankings (ballotOf line) = processRankings (butlast (tl (map trim (split CHR '' '' line))))"
  using split_not_Nil [of "CHR '' ''" line]
  by (cases "split CHR '' '' line") (simp_all add: ballotOf_def slice_0_butlast)

lemma parse_eq:
  "cleanedLines bltText = firstLine # rest \<Longrightarrow>
   parse bltText =
     Inr \<lparr>withdrawnCandidates = fst (shiftWithdrawn rest),
          numberOfCandidates = elementAt (map Number (split CHR '' '' firstLine)) 0,
          numberOfSeats = elementAt (map Number (split CHR '' '' firstLine)) 1,
          electionName = elementAt (snd (shiftWithdrawn rest))
                           (int (length (snd (shiftWithdrawn rest))) - 1),
          ballots = map ballotOf (ballotLines (snd (shiftWithdrawn rest))),
          candidatesObj = candidatesOf (candidateLines (snd (shiftWithdrawn rest)))\<rparr>"
  by (simp add: parse_def Let_def)

lemma parse_Inr_iff: "(\<exists>res. parse bltText = Inr res) \<longleftrightarrow> cleanedLines bltText \<noteq> []"
  by (cases "cleanedLines bltText") (simp_all add: parse_def Let_def)

lemma parse_InrD:
  assumes "parse bltText = Inr res"
  shows "cleanedLines bltText \<noteq> []"
    and "withdrawnCandidates res = fst (shiftWithdrawn (tl (cleanedLines bltText)))"
    and "ballots res = map ballotOf (ballotLines (snd (shiftWithdrawn (tl (cleanedLines bltText)))))"
    and "candidatesObj res = candidatesOf (candidateLines (snd (shiftWithdrawn (tl (cleanedLines bltText)))))"
    and "electionName res = elementAt (snd (shiftWithdrawn (tl (cleanedLines bltText))))
           (int (length (snd (shiftWithdrawn (tl (cleanedLines bltText))))) - 1)"
proof -
  from assms obtain firstLine rest where c: "cleanedLines bltText = firstLine # rest"
    by (cases "cleanedLines bltText") (simp_all add: parse_def)
  from parse_eq [OF c] assms have
    res: "res = \<lparr>withdrawnCandidates = fst (shiftWithdrawn rest),
          numberOfCandidates = elementAt (map Number (split CHR '' '' firstLine)) 0,
          numberOfSeats = elementAt (map Number (split CHR '' '' firstLine)) 1,
          electionName = elementAt (snd (shiftWithdrawn rest))
                           (int (length (snd (shiftWithdrawn rest))) - 1),
          ballots = map ballotOf (ballotLines (snd (shiftWithdrawn rest))),
          candidatesObj = candidatesOf (candidateLines (snd (shiftWithdrawn rest)))\<rparr>"
    by simp
  show "cleanedLines bltText \<noteq> []" by (simp add: c)
  show "withdrawnCandidates res = fst (shiftWithdrawn (tl (cleanedLines bltText)))"
    by (simp add: res c)
  show "ballots res = map ballotOf (ballotLines (snd (shiftWithdrawn (tl (cleanedLines bltText)))))"
    by (simp add: res c)
  show "candidatesObj res = candidatesOf (candidateLines (snd (shiftWithdrawn (tl (cleanedLines bltText)))))"
    by (simp add: res c)
  show "electionName res = elementAt (snd (shiftWithdrawn (tl (cleanedLines bltText))))
           (int (length (snd (shiftWithdrawn (tl (cleanedLines bltText))))) - 1)"
    by (simp add: res c)
qed

lemma set_slice: "set (slice xs a b) \<subseteq> set xs"
  unfolding slice_def Let_def by (meson set_take_subset set_drop_subset subset_trans)

lemma set_shiftWithdrawn: "set (snd (shiftWithdrawn ls)) \<subseteq> set ls"
  by (cases ls) (auto simp: shiftWithdrawn_def)

lemma ballotLines_subset: "set (ballotLines (snd (shiftWithdrawn (tl ls)))) \<subseteq> set ls"
proof -
  have "set (ballotLines (snd (shiftWithdrawn (tl ls)))) \<subseteq> set (snd (shiftWithdrawn (tl ls)))"
    unfolding ballotLines_def by (rule set_slice)
  also have "\<dots> \<subseteq> set (tl ls)" by (rule set_shiftWithdrawn)
  also have "\<dots> \<subseteq> set ls" by (cases ls) auto
  finally show ?thesis .
qed

lemma candidates_processRankings:
  assumes "j < length toks"
  shows "(candidates (processRankings toks ! j) = [] \<longleftrightarrow> toks ! j = ''-'')"
    and "(2 \<le> length (candidates (processRankings toks ! j)) \<longleftrightarrow> isTie (toks ! j))"
    and "length (candidates (processRankings toks ! j)) \<le> 2"
    and "rank (processRankings toks ! j) = j + 1"
proof -
  have nt: "\<not> isTie ''-''" by (simp add: isTie_def isDigit_def)
  show "(candidates (processRankings toks ! j) = [] \<longleftrightarrow> toks ! j = ''-'')"
    using nt by (auto simp: nth_processRankings [OF assms] isTie_split isSkip_def)
  show "(2 \<le> length (candidates (processRankings toks ! j)) \<longleftrightarrow> isTie (toks ! j))"
    by (simp add: nth_processRankings [OF assms] isTie_split)
  show "length (candidates (processRankings toks ! j)) \<le> 2"
    by (simp add: nth_processRankings [OF assms] isTie_split)
  show "rank (processRankings toks ! j) = j + 1"
    by (simp add: nth_processRankings [OF assms])
qed

lemma isTie_has_eq: "isTie t \<Longrightarrow> CHR ''='' \<in> set t"
  using isTie_parts(1) [of t] by (metis in_set_conv_decomp)

subsection \<open>The examples\<close>

lemma parse_parseConstants:
  assumes "parseConstants bltText = (firstLine # rest, w, c, s, en, bs, cl)"
  shows "parse bltText =
     Inr \<lparr>withdrawnCandidates = w, numberOfCandidates = c, numberOfSeats = s,
          electionName = en, ballots = bs, candidatesObj = candidatesOf cl\<rparr>"
proof -
  from assms have c: "cleanedLines bltText = firstLine # rest"
    by (simp add: parseConstants_def Let_def)
  from assms show ?thesis
    unfolding parse_eq [OF c] by (simp add: parseConstants_def Let_def c)
qed

lemma scenarioA_constants:
  "parseConstants scenarioA =
     (''4 2'' # [''-2'', ''1 4 1 3 2 0'', ''6 4 3 0'', ''1 0'', ''1 2 - 3 0'', ''1 2=3 1 0'', ''0'',
        ''Diane'', ''Bob'', ''Chuck'', ''Amy'', ''Gardening Club Election''],
      withdrawnCandidates scenarioAResult, numberOfCandidates scenarioAResult,
      numberOfSeats scenarioAResult, electionName scenarioAResult, ballots scenarioAResult,
      [''Diane'', ''Bob'', ''Chuck'', ''Amy''])"
  by code_simp

lemma scenarioA_parse: "parse scenarioA = Inr scenarioAResult"
  unfolding parse_parseConstants [OF scenarioA_constants] by (simp add: scenarioAResult_def)

subsection \<open>Segmentation\<close>

lemma elementAt_last:
  "elementAt xs (int (length xs) - 1) = (if xs = [] then None else Some (last xs))"
proof (cases "xs = []")
  case True
  then show ?thesis by (simp add: elementAt_def)
next
  case False
  then have "nat (int (length xs) - 1) = length xs - 1" by simp
  with False show ?thesis by (simp add: elementAt_def last_conv_nth)
qed

lemma segmentation_with_marker:
  assumes "''0'' \<in> set theOtherLines"
  shows "\<exists>i<length theOtherLines. theOtherLines ! i = ''0'' \<and> (\<forall>j<i. theOtherLines ! j \<noteq> ''0'') \<and>
           ballotLines theOtherLines = take i theOtherLines \<and>
           candidateLines theOtherLines = butlast (drop (Suc i) theOtherLines)"
proof -
  from assms have "\<exists>x\<in>set theOtherLines. x = ''0''" by simp
  from findIndex_first [of theOtherLines "\<lambda>line. line = ''0''", OF this]
  obtain i where i: "i < length theOtherLines" "indexOfEndOfBallots theOtherLines = int i"
    "theOtherLines ! i = ''0''" "\<forall>j<i. theOtherLines ! j \<noteq> ''0''"
    unfolding indexOfEndOfBallots_def by blast
  have "ballotLines theOtherLines = take i theOtherLines"
    unfolding ballotLines_def i(2) using i(1) by (simp add: slice_0_nat)
  moreover have "candidateLines theOtherLines = butlast (drop (Suc i) theOtherLines)"
    unfolding candidateLines_def i(2) using i(1) by (rule slice_after)
  ultimately show ?thesis using i by blast
qed

lemma segmentation_without_marker:
  assumes "''0'' \<notin> set theOtherLines"
  shows "ballotLines theOtherLines = butlast theOtherLines"
    and "candidateLines theOtherLines = butlast theOtherLines"
proof -
  from assms have "\<forall>x\<in>set theOtherLines. \<not> x = ''0''" by auto
  from findIndex_none [of theOtherLines "\<lambda>line. line = ''0''", OF this]
  have idx: "indexOfEndOfBallots theOtherLines = - 1"
    unfolding indexOfEndOfBallots_def .
  show "ballotLines theOtherLines = butlast theOtherLines"
    unfolding ballotLines_def idx by (rule slice_0_minus1)
  show "candidateLines theOtherLines = butlast theOtherLines"
    unfolding candidateLines_def idx by (simp add: slice_0_butlast)
qed

subsection \<open>The withdrawal line\<close>

lemma withdrawnGroups_pieces:
  assumes "split CHR '' '' line = p # ps"
    and "\<forall>q\<in>set ps. q = [] \<or> (\<exists>d. q = CHR ''-'' # d \<and> d \<noteq> [] \<and> list_all isDigit d)"
  shows "(list_all isDigit p \<longrightarrow> withdrawnGroups InDigits line)
       \<and> (p = [] \<or> (\<exists>d. p = CHR ''-'' # d \<and> d \<noteq> [] \<and> list_all isDigit d)
            \<longrightarrow> withdrawnGroups InSpace line)
       \<and> (p \<noteq> [] \<and> list_all isDigit p \<longrightarrow> withdrawnGroups AfterMinus line)"
  using assms
proof (induction line arbitrary: p ps)
  case Nil
  then show ?case by simp
next
  case (Cons c cs)
  obtain p' ps' where sp: "split CHR '' '' cs = p' # ps'"
    using split_not_Nil [of "CHR '' ''" cs] by (cases "split CHR '' '' cs") auto
  show ?case
  proof (cases "c = CHR '' ''")
    case True
    with Cons.prems(1) sp have p: "p = []" "ps = p' # ps'" by simp_all
    with Cons.prems(2) have good: "p' = [] \<or> (\<exists>d. p' = CHR ''-'' # d \<and> d \<noteq> [] \<and> list_all isDigit d)"
      "\<forall>q\<in>set ps'. q = [] \<or> (\<exists>d. q = CHR ''-'' # d \<and> d \<noteq> [] \<and> list_all isDigit d)"
      by simp_all
    from Cons.IH [OF sp good(2)] good(1) have "withdrawnGroups InSpace cs" by blast
    then show ?thesis using True p by (simp add: isSpace_def isDigit_def)
  next
    case False
    with Cons.prems(1) sp have p: "p = c # p'" "ps = ps'" by simp_all
    with Cons.prems(2) have
      good: "\<forall>q\<in>set ps'. q = [] \<or> (\<exists>d. q = CHR ''-'' # d \<and> d \<noteq> [] \<and> list_all isDigit d)"
      by simp
    note IH = Cons.IH [OF sp good]
    have a: "withdrawnGroups InDigits (c # cs)" if "list_all isDigit p"
    proof -
      from that p have "isDigit c" "list_all isDigit p'" by simp_all
      with IH show ?thesis by simp
    qed
    have b: "withdrawnGroups InSpace (c # cs)"
      if "\<exists>d. p = CHR ''-'' # d \<and> d \<noteq> [] \<and> list_all isDigit d"
    proof -
      from that p have "c = CHR ''-''" "p' \<noteq> []" "list_all isDigit p'" by auto
      with IH show ?thesis by (simp add: isSpace_def)
    qed
    have c: "withdrawnGroups AfterMinus (c # cs)" if "list_all isDigit p"
    proof -
      from that p have "isDigit c" "list_all isDigit p'" by simp_all
      with IH show ?thesis by simp
    qed
    from a b c p show ?thesis by simp
  qed
qed

lemma withdrawnGroups_spaced:
  assumes "hd (split CHR '' '' line) \<noteq> []"
    and "\<forall>q\<in>set (split CHR '' '' line).
           q = [] \<or> (\<exists>d. q = CHR ''-'' # d \<and> d \<noteq> [] \<and> list_all isDigit d)"
  shows "withdrawnGroups AtStart line"
proof (cases line)
  case Nil
  with assms(1) show ?thesis by simp
next
  case (Cons c cs)
  obtain p' ps' where sp: "split CHR '' '' cs = p' # ps'"
    using split_not_Nil [of "CHR '' ''" cs] by (cases "split CHR '' '' cs") auto
  from assms(1) Cons have ns: "c \<noteq> CHR '' ''" by auto
  with Cons sp have s: "split CHR '' '' line = (c # p') # ps'" by simp
  with assms(2) have "\<exists>d. c # p' = CHR ''-'' # d \<and> d \<noteq> [] \<and> list_all isDigit d"
    and good: "\<forall>q\<in>set ps'. q = [] \<or> (\<exists>d. q = CHR ''-'' # d \<and> d \<noteq> [] \<and> list_all isDigit d)"
    by simp_all
  then have "c = CHR ''-''" "p' \<noteq> []" "list_all isDigit p'" by auto
  with withdrawnGroups_pieces [OF sp good] Cons show ?thesis by simp
qed

lemma trim_minus_digits: "list_all isDigit d \<Longrightarrow> trim (CHR ''-'' # d) = CHR ''-'' # d"
proof (rule trim_id)
  assume d: "list_all isDigit d"
  show "CHR ''-'' # d \<noteq> []" by simp
  show "\<not> isSpace (hd (CHR ''-'' # d))" by (simp add: isSpace_def)
  show "\<not> isSpace (last (CHR ''-'' # d))"
  proof (cases "d = []")
    case True
    then show ?thesis by (simp add: isSpace_def)
  next
    case False
    with d have "isDigit (last d)" by (simp add: list_all_iff)
    with False show ?thesis using isDigit_not_special by simp
  qed
qed

lemma withdrawnNumbers_spaced:
  assumes "\<forall>q\<in>set (split CHR '' '' line).
           q = [] \<or> (\<exists>d. q = CHR ''-'' # d \<and> d \<noteq> [] \<and> list_all isDigit d)"
  shows "withdrawnNumbers line =
     map (\<lambda>q. Number (tl q)) (filter (\<lambda>q. q \<noteq> []) (split CHR '' '' line))"
proof -
  have tr: "trim q = q" if "q \<in> set (split CHR '' '' line)" for q
  proof -
    from assms that
    consider "q = []" | d where "q = CHR ''-'' # d" "list_all isDigit d" by blast
    then show ?thesis
    proof cases
      case 1
      then show ?thesis by (simp add: trim_def)
    next
      case 2
      then show ?thesis by (simp only: trim_minus_digits)
    qed
  qed
  have f: "filter (\<lambda>chars. length (trim chars) > 0) (split CHR '' '' line) =
           filter (\<lambda>q. q \<noteq> []) (split CHR '' '' line)"
    by (rule filter_cong) (simp_all add: tr)
  have m: "Number (remove1 CHR ''-'' (trim q)) = Number (tl q)"
    if "q \<in> set (filter (\<lambda>q. q \<noteq> []) (split CHR '' '' line))" for q
  proof -
    from that have q: "q \<in> set (split CHR '' '' line)" "q \<noteq> []" by simp_all
    with assms obtain d where d: "q = CHR ''-'' # d" "d \<noteq> []" "list_all isDigit d" by blast
    have "Number (remove1 CHR ''-'' (trim q)) = Number d"
      unfolding tr [OF q(1)] by (simp add: d(1))
    then show ?thesis by (simp add: d(1))
  qed
  show ?thesis
    unfolding withdrawnNumbers_def f by (rule map_cong) (simp_all add: m)
qed

text \<open>
  The test accepts any white space, or none, between two groups, but the line is then
  split at spaces only: a tab-separated line and a line without separators pass the
  test and give one piece, which is not a number.
\<close>

lemma withdrawn_not_space_separated:
  "isWithdrawnLine (Some (''-1'' @ [CHR 0x09] @ ''-3''))
   \<and> withdrawnNumbers (''-1'' @ [CHR 0x09] @ ''-3'') = [NaN]
   \<and> isWithdrawnLine (Some ''-1-3'')
   \<and> withdrawnNumbers ''-1-3'' = [NaN]"
  by code_simp

subsection \<open>Ranks\<close>

lemma ranks_processRankings:
  "map rank (processRankings toks) = [1..<Suc (length toks)]"
proof (rule nth_equalityI)
  show "length (map rank (processRankings toks)) = length [1..<Suc (length toks)]"
    by (simp add: length_processRankings del: upt_Suc)
next
  fix i
  assume "i < length (map rank (processRankings toks))"
  then have i: "i < length toks" by (simp add: length_processRankings)
  then have "rank (processRankings toks ! i) = i + 1"
    by (rule candidates_processRankings(4))
  with i show "map rank (processRankings toks) ! i = [1..<Suc (length toks)] ! i"
    by (simp add: length_processRankings del: upt_Suc)
qed

lemma rankings_count:
  "length (rankings (ballotOf line)) = length (split CHR '' '' line) - 2"
  by (simp add: rankings_ballotOf length_processRankings)

subsection \<open>Comments and quotes\<close>

text \<open>
  On a line without a line terminator (after the split at the line feeds, that is a
  line without a carriage return) the comment is removed from the first \<open>#\<close> on; and
  no output string holds a quote character.
\<close>

lemma stripComment_no_terminator:
  "list_all (\<lambda>d. \<not> isLineTerminator d) s \<Longrightarrow>
   stripComment s = takeWhile (\<lambda>c. c \<noteq> CHR ''#'') s"
  by (induction s) simp_all

lemma set_trim: "set (trim s) \<subseteq> set s"
proof -
  have "set (trim s) = set (dropWhile isSpace (rev (dropWhile isSpace s)))"
    by (simp add: trim_def)
  also have "\<dots> \<subseteq> set (rev (dropWhile isSpace s))" by (rule set_dropWhileD [THEN subsetI])
  also have "\<dots> \<subseteq> set s" using set_dropWhileD by fastforce
  finally show ?thesis .
qed

lemma cleanLine_no_quote: "CHR 0x22 \<notin> set (cleanLine line)"
  using set_trim [of "stripQuotes (stripComment line)"]
  by (auto simp: cleanLine_def stripQuotes_def)

lemma cleanedLines_no_quote: "l \<in> set (cleanedLines bltText) \<Longrightarrow> CHR 0x22 \<notin> set l \<and> l \<noteq> []"
  using cleanLine_no_quote by (auto simp: cleanedLines_def)

lemma candidateLines_subset: "set (candidateLines (snd (shiftWithdrawn (tl ls)))) \<subseteq> set ls"
proof -
  have "set (candidateLines (snd (shiftWithdrawn (tl ls)))) \<subseteq> set (snd (shiftWithdrawn (tl ls)))"
    unfolding candidateLines_def by (rule set_slice)
  also have "\<dots> \<subseteq> set (tl ls)" by (rule set_shiftWithdrawn)
  also have "\<dots> \<subseteq> set ls" by (cases ls) auto
  finally show ?thesis .
qed

lemma output_strings_no_quote:
  assumes "parse bltText = Inr res"
  shows "electionName res = Some title \<Longrightarrow> CHR 0x22 \<notin> set title"
    and "candidatesObj res n = Some c \<Longrightarrow> CHR 0x22 \<notin> set (name c)"
proof -
  let ?others = "snd (shiftWithdrawn (tl (cleanedLines bltText)))"
  have sub: "set ?others \<subseteq> set (cleanedLines bltText)"
    using set_shiftWithdrawn [of "tl (cleanedLines bltText)"]
    by (cases "cleanedLines bltText") auto
  show "CHR 0x22 \<notin> set title" if "electionName res = Some title"
  proof -
    from that have "?others \<noteq> []" "title = last ?others"
      unfolding parse_InrD(5) [OF assms] elementAt_last by (auto split: if_splits)
    then have "title \<in> set ?others" by simp
    with sub show ?thesis using cleanedLines_no_quote by blast
  qed
  show "CHR 0x22 \<notin> set (name c)" if "candidatesObj res n = Some c"
  proof -
    from that have "1 \<le> n \<and> n \<le> length (candidateLines ?others)"
      and "name c = candidateLines ?others ! (n - 1)"
      unfolding parse_InrD(4) [OF assms] candidatesOf_apply by (auto split: if_splits)
    then have "n - 1 < length (candidateLines ?others)"
      and "name c = candidateLines ?others ! (n - 1)" by auto
    then have "name c \<in> set (candidateLines ?others)" by (simp only: nth_mem)
    with candidateLines_subset [of "cleanedLines bltText"]
    show ?thesis using cleanedLines_no_quote by blast
  qed
qed

section \<open>The claims\<close>

text \<open>
  C10: an input whose normalization yields no line at all (only blank lines and
  comments, say) makes \<open>parse\<close> throw: \<open>firstLine\<close> is \<open>undefined\<close> and calling
  \<open>split\<close> on it is a \<open>TypeError\<close>; no result is returned.
\<close>

theorem parse_no_lines_throws:
  "cleanedLines bltText = [] \<Longrightarrow> parse bltText = Inl TypeError"
  by (simp add: parse_def)

theorem parse_no_lines_throws_witness:
  "cleanedLines (unlines [''# just a comment'', '''', ''   '', ''  # another'']) = []
   \<and> parse (unlines [''# just a comment'', '''', ''   '', ''  # another'']) = Inl TypeError"
proof -
  have h: "cleanedLines (unlines [''# just a comment'', '''', ''   '', ''  # another'']) = []"
    by code_simp
  show ?thesis using h parse_no_lines_throws [OF h] by simp
qed

text \<open>
  C9: every ranking of every ballot of a parse result has at most two candidates: a
  token that passes the tie test has exactly one \<open>=\<close>, so \<open>split\<close> gives two pieces.
\<close>

theorem rankings_at_most_two_candidates:
  assumes "parse bltText = Inr res" and "b \<in> set (ballots res)" and "r \<in> set (rankings b)"
  shows "length (candidates r) \<le> 2"
proof -
  from assms(2) obtain line where "b = ballotOf line"
    unfolding parse_InrD(3) [OF assms(1)] by auto
  with assms(3) have "r \<in> set (processRankings (butlast (tl (map trim (split CHR '' '' line)))))"
    by (simp add: rankings_ballotOf)
  then obtain j where "j < length (butlast (tl (map trim (split CHR '' '' line))))"
    and "r = processRankings (butlast (tl (map trim (split CHR '' '' line)))) ! j"
    unfolding in_set_conv_nth length_processRankings by auto
  then show ?thesis using candidates_processRankings(3) by simp
qed

theorem rankings_at_most_two_candidates_witness:
  "parse scenarioA = Inr scenarioAResult
   \<and> \<lparr>weight = Num 1, rankings = [\<lparr>rank = 1, candidates = [Num 2, Num 3]\<rparr>,
                                  \<lparr>rank = 2, candidates = [Num 1]\<rparr>]\<rparr> \<in> set (ballots scenarioAResult)
   \<and> \<lparr>rank = 1, candidates = [Num 2, Num 3]\<rparr>
        \<in> set (rankings \<lparr>weight = Num 1, rankings = [\<lparr>rank = 1, candidates = [Num 2, Num 3]\<rparr>,
                                                    \<lparr>rank = 2, candidates = [Num 1]\<rparr>]\<rparr>)
   \<and> length (candidates \<lparr>rank = 1, candidates = [Num 2, Num 3]\<rparr>) \<le> 2"
proof -
  have b: "\<lparr>weight = Num 1, rankings = [\<lparr>rank = 1, candidates = [Num 2, Num 3]\<rparr>,
              \<lparr>rank = 2, candidates = [Num 1]\<rparr>]\<rparr> \<in> set (ballots scenarioAResult)"
    by (simp add: scenarioAResult_def)
  have r: "\<lparr>rank = 1, candidates = [Num 2, Num 3]\<rparr>
        \<in> set (rankings \<lparr>weight = Num 1, rankings = [\<lparr>rank = 1, candidates = [Num 2, Num 3]\<rparr>,
                                                    \<lparr>rank = 2, candidates = [Num 1]\<rparr>]\<rparr>)"
    by simp
  show ?thesis
    using rankings_at_most_two_candidates [OF scenarioA_parse b r] scenarioA_parse b r by blast
qed

text \<open>
  C4: in a parse result, each ballot comes from one of the cleaned lines, its rankings
  are decoded from the pieces of that line between the first and the last, and there a
  ranking has no candidate exactly when its piece is \<open>-\<close>, and two or more candidates
  exactly when its piece passes the tie test (and then contains \<open>=\<close>).
\<close>

theorem ranking_provenance:
  assumes "parse bltText = Inr res" and "b \<in> set (ballots res)"
  shows "\<exists>line\<in>set (cleanedLines bltText).
           rankings b = processRankings (butlast (tl (map trim (split CHR '' '' line)))) \<and>
           (\<forall>j<length (rankings b).
              (candidates (rankings b ! j) = [] \<longleftrightarrow>
                 butlast (tl (map trim (split CHR '' '' line))) ! j = ''-'') \<and>
              (2 \<le> length (candidates (rankings b ! j)) \<longleftrightarrow>
                 isTie (butlast (tl (map trim (split CHR '' '' line))) ! j)) \<and>
              (2 \<le> length (candidates (rankings b ! j)) \<longrightarrow>
                 CHR ''='' \<in> set (butlast (tl (map trim (split CHR '' '' line))) ! j)))"
proof -
  from assms(2) obtain line where line: "b = ballotOf line"
    "line \<in> set (ballotLines (snd (shiftWithdrawn (tl (cleanedLines bltText)))))"
    unfolding parse_InrD(3) [OF assms(1)] by auto
  from line(2) have mem: "line \<in> set (cleanedLines bltText)"
    using ballotLines_subset by blast
  let ?toks = "butlast (tl (map trim (split CHR '' '' line)))"
  have rk: "rankings b = processRankings ?toks" by (simp add: line(1) rankings_ballotOf)
  have "\<forall>j<length (rankings b).
              (candidates (rankings b ! j) = [] \<longleftrightarrow> ?toks ! j = ''-'') \<and>
              (2 \<le> length (candidates (rankings b ! j)) \<longleftrightarrow> isTie (?toks ! j)) \<and>
              (2 \<le> length (candidates (rankings b ! j)) \<longrightarrow> CHR ''='' \<in> set (?toks ! j))"
    unfolding rk length_processRankings
    using candidates_processRankings(1,2) isTie_has_eq by blast
  with rk mem show ?thesis by blast
qed

theorem ranking_provenance_witness:
  "parse scenarioA = Inr scenarioAResult
   \<and> \<lparr>weight = Num 1, rankings = [\<lparr>rank = 1, candidates = [Num 2]\<rparr>, \<lparr>rank = 2, candidates = []\<rparr>,
                                  \<lparr>rank = 3, candidates = [Num 3]\<rparr>]\<rparr> \<in> set (ballots scenarioAResult)
   \<and> (\<exists>line\<in>set (cleanedLines scenarioA).
         [\<lparr>rank = 1, candidates = [Num 2]\<rparr>, \<lparr>rank = 2, candidates = []\<rparr>,
          \<lparr>rank = 3, candidates = [Num 3]\<rparr>]
           = processRankings (butlast (tl (map trim (split CHR '' '' line)))) \<and>
         butlast (tl (map trim (split CHR '' '' line))) ! 1 = ''-'')"
proof -
  let ?b = "\<lparr>weight = Num 1, rankings = [\<lparr>rank = 1, candidates = [Num 2]\<rparr>, \<lparr>rank = 2, candidates = []\<rparr>,
                                  \<lparr>rank = 3, candidates = [Num 3]\<rparr>]\<rparr>"
  have b: "?b \<in> set (ballots scenarioAResult)"
    by (simp add: scenarioAResult_def)
  from ranking_provenance [OF scenarioA_parse b] obtain line where
    l: "line \<in> set (cleanedLines scenarioA)"
      "rankings ?b = processRankings (butlast (tl (map trim (split CHR '' '' line))))"
      "\<forall>j<length (rankings ?b).
          (candidates (rankings ?b ! j) = [] \<longleftrightarrow>
             butlast (tl (map trim (split CHR '' '' line))) ! j = ''-'')"
    by blast
  from l(3) [rule_format, of 1]
  have "butlast (tl (map trim (split CHR '' '' line))) ! 1 = ''-''"
    by simp
  with l(1,2) scenarioA_parse b show ?thesis by auto
qed

text \<open>
  C2: when a line left after the header and the withdrawal line is exactly \<open>0\<close>, the
  first such line is the marker: the ballots are decoded from the lines before it, the
  candidates are the lines after it without the final line, numbered from 1 by
  position, and \<open>electionName\<close> is the final line.
\<close>

theorem end_of_ballots_segmentation:
  assumes "cleanedLines bltText = firstLine # rest"
    and "theOtherLines = snd (shiftWithdrawn rest)"
    and "''0'' \<in> set theOtherLines"
  shows "\<exists>res i. parse bltText = Inr res \<and>
           i < length theOtherLines \<and> theOtherLines ! i = ''0'' \<and>
           (\<forall>j<i. theOtherLines ! j \<noteq> ''0'') \<and>
           ballots res = map ballotOf (take i theOtherLines) \<and>
           (\<forall>n. candidatesObj res n =
              (if 1 \<le> n \<and> n \<le> length (butlast (drop (Suc i) theOtherLines))
               then Some \<lparr>name = butlast (drop (Suc i) theOtherLines) ! (n - 1), number = n\<rparr>
               else None)) \<and>
           electionName res = Some (last theOtherLines)"
proof -
  from segmentation_with_marker [OF assms(3)] obtain i where
    i: "i < length theOtherLines" "theOtherLines ! i = ''0''" "\<forall>j<i. theOtherLines ! j \<noteq> ''0''"
      "ballotLines theOtherLines = take i theOtherLines"
      "candidateLines theOtherLines = butlast (drop (Suc i) theOtherLines)"
    by blast
  from assms(3) have ne: "theOtherLines \<noteq> []" by auto
  let ?res = "\<lparr>withdrawnCandidates = fst (shiftWithdrawn rest),
          numberOfCandidates = elementAt (map Number (split CHR '' '' firstLine)) 0,
          numberOfSeats = elementAt (map Number (split CHR '' '' firstLine)) 1,
          electionName = elementAt theOtherLines (int (length theOtherLines) - 1),
          ballots = map ballotOf (ballotLines theOtherLines),
          candidatesObj = candidatesOf (candidateLines theOtherLines)\<rparr>"
  have p: "parse bltText = Inr ?res"
    unfolding assms(2) by (rule parse_eq [OF assms(1)])
  have "ballots ?res = map ballotOf (take i theOtherLines)" by (simp add: i(4))
  moreover have "\<forall>n. candidatesObj ?res n =
              (if 1 \<le> n \<and> n \<le> length (butlast (drop (Suc i) theOtherLines))
               then Some \<lparr>name = butlast (drop (Suc i) theOtherLines) ! (n - 1), number = n\<rparr>
               else None)"
    by (simp add: i(5) candidatesOf_apply)
  moreover have "electionName ?res = Some (last theOtherLines)"
    using ne by (simp add: elementAt_last)
  ultimately show ?thesis using p i(1,2,3) by blast
qed

theorem end_of_ballots_segmentation_witness:
  "cleanedLines scenarioA =
     ''4 2'' # [''-2'', ''1 4 1 3 2 0'', ''6 4 3 0'', ''1 0'', ''1 2 - 3 0'', ''1 2=3 1 0'', ''0'',
        ''Diane'', ''Bob'', ''Chuck'', ''Amy'', ''Gardening Club Election'']
   \<and> [''1 4 1 3 2 0'', ''6 4 3 0'', ''1 0'', ''1 2 - 3 0'', ''1 2=3 1 0'', ''0'',
        ''Diane'', ''Bob'', ''Chuck'', ''Amy'', ''Gardening Club Election'']
      = snd (shiftWithdrawn [''-2'', ''1 4 1 3 2 0'', ''6 4 3 0'', ''1 0'', ''1 2 - 3 0'',
          ''1 2=3 1 0'', ''0'', ''Diane'', ''Bob'', ''Chuck'', ''Amy'', ''Gardening Club Election''])
   \<and> ''0'' \<in> set [''1 4 1 3 2 0'', ''6 4 3 0'', ''1 0'', ''1 2 - 3 0'', ''1 2=3 1 0'', ''0'',
        ''Diane'', ''Bob'', ''Chuck'', ''Amy'', ''Gardening Club Election'']
   \<and> (\<exists>res. parse scenarioA = Inr res \<and>
         ballots res = map ballotOf [''1 4 1 3 2 0'', ''6 4 3 0'', ''1 0'', ''1 2 - 3 0'', ''1 2=3 1 0''] \<and>
         candidatesObj res 1 = Some \<lparr>name = ''Diane'', number = 1\<rparr> \<and>
         candidatesObj res 4 = Some \<lparr>name = ''Amy'', number = 4\<rparr> \<and>
         candidatesObj res 5 = None \<and>
         electionName res = Some ''Gardening Club Election'')"
proof -
  let ?others = "[''1 4 1 3 2 0'', ''6 4 3 0'', ''1 0'', ''1 2 - 3 0'', ''1 2=3 1 0'', ''0'',
        ''Diane'', ''Bob'', ''Chuck'', ''Amy'', ''Gardening Club Election'']"
  have h1: "cleanedLines scenarioA = ''4 2'' # ''-2'' # ?others"
    by code_simp
  have h2: "?others = snd (shiftWithdrawn (''-2'' # ?others))"
    by code_simp
  have h3: "''0'' \<in> set ?others" by simp
  from end_of_ballots_segmentation [OF h1 h2 h3] obtain res i where
    r: "parse scenarioA = Inr res" "i < length ?others" "?others ! i = ''0''"
      "\<forall>j<i. ?others ! j \<noteq> ''0''"
      "ballots res = map ballotOf (take i ?others)"
      "\<forall>n. candidatesObj res n =
              (if 1 \<le> n \<and> n \<le> length (butlast (drop (Suc i) ?others))
               then Some \<lparr>name = butlast (drop (Suc i) ?others) ! (n - 1), number = n\<rparr>
               else None)"
      "electionName res = Some (last ?others)"
    by blast
  have "i = 5"
  proof (rule ccontr)
    assume "i \<noteq> 5"
    with r(2) consider "i < 5" | "5 < i \<and> i < 11" by fastforce
    then show False
    proof cases
      case 1
      then have "i \<in> {0, 1, 2, 3, 4}" by auto
      with r(3) show False by auto
    next
      case 2
      with r(4) have "?others ! 5 \<noteq> ''0''" by blast
      then show False by simp
    qed
  qed
  with r(5,6,7) have "ballots res = map ballotOf [''1 4 1 3 2 0'', ''6 4 3 0'', ''1 0'', ''1 2 - 3 0'', ''1 2=3 1 0'']"
    "candidatesObj res 1 = Some \<lparr>name = ''Diane'', number = 1\<rparr>"
    "candidatesObj res 4 = Some \<lparr>name = ''Amy'', number = 4\<rparr>"
    "candidatesObj res 5 = None"
    "electionName res = Some ''Gardening Club Election''"
    by simp_all
  with r(1) h1 h2 h3 show ?thesis by blast
qed

text \<open>
  C1, as the code has it: when no cleaned line is exactly \<open>0\<close>, \<open>findIndex\<close> gives
  \<open>-1\<close> and \<open>parse\<close> goes on with it. Provided there is a header line, \<open>parse\<close> returns
  a result: the ballots are decoded from all the remaining lines but the last, the
  candidates are those same lines, and \<open>electionName\<close> is the last remaining line
  (\<open>undefined\<close> when nothing follows the header and the withdrawal line).
\<close>

theorem missing_marker_no_failure:
  assumes "cleanedLines bltText = firstLine # rest"
    and "''0'' \<notin> set (cleanedLines bltText)"
    and "theOtherLines = snd (shiftWithdrawn rest)"
  shows "\<exists>res. parse bltText = Inr res \<and>
           ballots res = map ballotOf (butlast theOtherLines) \<and>
           candidatesObj res = candidatesOf (butlast theOtherLines) \<and>
           electionName res = (if theOtherLines = [] then None else Some (last theOtherLines))"
proof -
  have "set theOtherLines \<subseteq> set rest"
    unfolding assms(3) by (rule set_shiftWithdrawn)
  with assms(1,2) have nz: "''0'' \<notin> set theOtherLines" by auto
  show ?thesis
    unfolding parse_eq [OF assms(1)] assms(3) [symmetric]
    by (simp add: segmentation_without_marker [OF nz] elementAt_last)
qed

theorem missing_marker_no_failure_witness:
  "cleanedLines ''1 1\<newline>1 1 0\<newline>Alice\<newline>Title'' = ''1 1'' # [''1 1 0'', ''Alice'', ''Title'']
   \<and> ''0'' \<notin> set (cleanedLines ''1 1\<newline>1 1 0\<newline>Alice\<newline>Title'')
   \<and> [''1 1 0'', ''Alice'', ''Title''] = snd (shiftWithdrawn [''1 1 0'', ''Alice'', ''Title''])
   \<and> (\<exists>res. parse ''1 1\<newline>1 1 0\<newline>Alice\<newline>Title'' = Inr res \<and>
         ballots res = map ballotOf [''1 1 0'', ''Alice''] \<and>
         candidatesObj res = candidatesOf [''1 1 0'', ''Alice''] \<and>
         electionName res = Some ''Title'')"
proof -
  have h1: "cleanedLines ''1 1\<newline>1 1 0\<newline>Alice\<newline>Title'' = ''1 1'' # [''1 1 0'', ''Alice'', ''Title'']"
    by code_simp
  have h2: "''0'' \<notin> set (cleanedLines ''1 1\<newline>1 1 0\<newline>Alice\<newline>Title'')"
    unfolding h1 by simp
  have h3: "[''1 1 0'', ''Alice'', ''Title''] = snd (shiftWithdrawn [''1 1 0'', ''Alice'', ''Title''])"
    by code_simp
  from missing_marker_no_failure [OF h1 h2 h3] h1 h2 h3 show ?thesis by simp
qed

theorem missing_marker_counterexample:
  "''0'' \<notin> set (cleanedLines ''1 1\<newline>1 1 0\<newline>Alice\<newline>Title'')
   \<and> parse ''1 1\<newline>1 1 0\<newline>Alice\<newline>Title'' =
       Inr \<lparr>withdrawnCandidates = [],
            numberOfCandidates = Some (Num 1),
            numberOfSeats = Some (Num 1),
            electionName = Some ''Title'',
            ballots = [\<lparr>weight = Num 1, rankings = [\<lparr>rank = 1, candidates = [Num 1]\<rparr>]\<rparr>,
                       \<lparr>weight = NaN, rankings = []\<rparr>],
            candidatesObj = candidatesOf [''1 1 0'', ''Alice'']\<rparr>"
proof -
  have c: "parseConstants ''1 1\<newline>1 1 0\<newline>Alice\<newline>Title'' =
     (''1 1'' # [''1 1 0'', ''Alice'', ''Title''], [], Some (Num 1), Some (Num 1), Some ''Title'',
      [\<lparr>weight = Num 1, rankings = [\<lparr>rank = 1, candidates = [Num 1]\<rparr>]\<rparr>,
       \<lparr>weight = NaN, rankings = []\<rparr>],
      [''1 1 0'', ''Alice''])"
    by code_simp
  have "cleanedLines ''1 1\<newline>1 1 0\<newline>Alice\<newline>Title'' = [''1 1'', ''1 1 0'', ''Alice'', ''Title'']"
    by code_simp
  then have "''0'' \<notin> set (cleanedLines ''1 1\<newline>1 1 0\<newline>Alice\<newline>Title'')"
    by simp
  then show ?thesis unfolding parse_parseConstants [OF c] by simp
qed

text \<open>
  C6, as the code has it: no ballot line makes \<open>parse\<close> fail; \<open>parse\<close> returns whenever
  there is a header line, and its ballots are the decoded ballot lines. On a ballot
  line of at least two space-separated pieces the first piece is the weight, the last
  piece is dropped without being looked at, and the pieces between them are the
  rankings: the last piece yields no ranking, whether it is \<open>0\<close> or not.
\<close>

theorem terminator_dropped_unchecked:
  "(cleanedLines bltText \<noteq> [] \<longrightarrow>
      (\<exists>res. parse bltText = Inr res \<and>
         ballots res =
           map ballotOf (ballotLines (snd (shiftWithdrawn (tl (cleanedLines bltText)))))))
   \<and> (map trim (split CHR '' '' line) = weightChars # candidateRankings @ [terminator] \<longrightarrow>
        ballotOf line =
          \<lparr>weight = Number weightChars, rankings = processRankings candidateRankings\<rparr>)"
proof (intro conjI impI)
  assume "cleanedLines bltText \<noteq> []"
  then obtain res where "parse bltText = Inr res" using parse_Inr_iff by blast
  with parse_InrD(3) [OF this]
  show "\<exists>res. parse bltText = Inr res \<and>
         ballots res =
           map ballotOf (ballotLines (snd (shiftWithdrawn (tl (cleanedLines bltText)))))"
    by blast
next
  assume "map trim (split CHR '' '' line) = weightChars # candidateRankings @ [terminator]"
  then show "ballotOf line =
          \<lparr>weight = Number weightChars, rankings = processRankings candidateRankings\<rparr>"
    by (simp add: ballotOf_def slice_0_butlast)
qed

theorem terminator_dropped_unchecked_witness:
  "cleanedLines ''1 1\<newline>1 1 2\<newline>0\<newline>A\<newline>T'' \<noteq> []
   \<and> map trim (split CHR '' '' ''1 1 2'') = ''1'' # [''1''] @ [''2'']
   \<and> (\<exists>res. parse ''1 1\<newline>1 1 2\<newline>0\<newline>A\<newline>T'' = Inr res \<and>
         ballots res = map ballotOf (ballotLines (snd (shiftWithdrawn (tl (cleanedLines ''1 1\<newline>1 1 2\<newline>0\<newline>A\<newline>T''))))))
   \<and> ballotOf ''1 1 2'' = \<lparr>weight = Number ''1'', rankings = processRankings [''1'']\<rparr>"
proof -
  have h1: "cleanedLines ''1 1\<newline>1 1 2\<newline>0\<newline>A\<newline>T'' \<noteq> []"
    by code_simp
  have h2: "map trim (split CHR '' '' ''1 1 2'') = ''1'' # [''1''] @ [''2'']"
    by code_simp
  from terminator_dropped_unchecked
    [of "''1 1\<newline>1 1 2\<newline>0\<newline>A\<newline>T''" "''1 1 2''" "''1''" "[''1'']" "''2''"] h1 h2
  show ?thesis by blast
qed

theorem terminator_counterexample:
  "parse ''1 1\<newline>1 1 2\<newline>0\<newline>A\<newline>T'' =
       Inr \<lparr>withdrawnCandidates = [],
            numberOfCandidates = Some (Num 1),
            numberOfSeats = Some (Num 1),
            electionName = Some ''T'',
            ballots = [\<lparr>weight = Num 1, rankings = [\<lparr>rank = 1, candidates = [Num 1]\<rparr>]\<rparr>],
            candidatesObj = candidatesOf [''A'']\<rparr>"
proof -
  have c: "parseConstants ''1 1\<newline>1 1 2\<newline>0\<newline>A\<newline>T'' =
     (''1 1'' # [''1 1 2'', ''0'', ''A'', ''T''], [], Some (Num 1), Some (Num 1), Some ''T'',
      [\<lparr>weight = Num 1, rankings = [\<lparr>rank = 1, candidates = [Num 1]\<rparr>]\<rparr>],
      [''A''])"
    by code_simp
  show ?thesis unfolding parse_parseConstants [OF c] by simp
qed

text \<open>
  C7, at a ballot line with two spaces between two rankings: \<open>split(" ")\<close> gives an
  empty piece between the spaces, and the decoder makes a ranking of it (candidate 0,
  the value of \<open>Number("")\<close>): three rankings for the two ranking tokens of the line.
\<close>

theorem double_space_extra_ranking:
  "parse ''1 1\<newline>1 2  3 0\<newline>0\<newline>A\<newline>T'' =
       Inr \<lparr>withdrawnCandidates = [],
            numberOfCandidates = Some (Num 1),
            numberOfSeats = Some (Num 1),
            electionName = Some ''T'',
            ballots = [\<lparr>weight = Num 1,
                        rankings = [\<lparr>rank = 1, candidates = [Num 2]\<rparr>,
                                    \<lparr>rank = 2, candidates = [Num 0]\<rparr>,
                                    \<lparr>rank = 3, candidates = [Num 3]\<rparr>]\<rparr>],
            candidatesObj = candidatesOf [''A'']\<rparr>"
proof -
  have c: "parseConstants ''1 1\<newline>1 2  3 0\<newline>0\<newline>A\<newline>T'' =
     (''1 1'' # [''1 2  3 0'', ''0'', ''A'', ''T''], [], Some (Num 1), Some (Num 1), Some ''T'',
      [\<lparr>weight = Num 1,
        rankings = [\<lparr>rank = 1, candidates = [Num 2]\<rparr>, \<lparr>rank = 2, candidates = [Num 0]\<rparr>,
                    \<lparr>rank = 3, candidates = [Num 3]\<rparr>]\<rparr>],
      [''A''])"
    by code_simp
  show ?thesis unfolding parse_parseConstants [OF c] by simp
qed

text \<open>
  C8, at a file with CRLF line ends: after the split at the line feeds every line ends
  with a carriage return, which \<open>.\<close> does not match, so \<open>/#.*$/\<close> matches nowhere and the
  comment stays; \<open>trim\<close> then removes the carriage return. The comment of the candidate
  line ends up in the candidate's name.
\<close>

theorem crlf_comment_kept:
  "parse (''1 1'' @ [CHR 0x0D, CHR 0x0A] @ ''0'' @ [CHR 0x0D, CHR 0x0A]
          @ quoted ''Alice'' @ '' # first candidate'' @ [CHR 0x0D, CHR 0x0A]
          @ quoted ''Title'' @ [CHR 0x0D, CHR 0x0A]) =
       Inr \<lparr>withdrawnCandidates = [],
            numberOfCandidates = Some (Num 1),
            numberOfSeats = Some (Num 1),
            electionName = Some ''Title'',
            ballots = [],
            candidatesObj = candidatesOf [''Alice # first candidate'']\<rparr>"
proof -
  have c: "parseConstants (''1 1'' @ [CHR 0x0D, CHR 0x0A] @ ''0'' @ [CHR 0x0D, CHR 0x0A]
          @ quoted ''Alice'' @ '' # first candidate'' @ [CHR 0x0D, CHR 0x0A]
          @ quoted ''Title'' @ [CHR 0x0D, CHR 0x0A]) =
     (''1 1'' # [''0'', ''Alice # first candidate'', ''Title''], [], Some (Num 1), Some (Num 1),
      Some ''Title'', [], [''Alice # first candidate''])"
    by code_simp
  show ?thesis unfolding parse_parseConstants [OF c] by simp
qed

text \<open>
  C3, as the code has it: the decoder gives one ranking per token, its rank the
  position from 1. A token of the form digits \<open>=\<close> digits yields the two numbers, in the
  order written, each converted by \<open>Number\<close>; the token \<open>-\<close> yields no candidate; any
  other token yields the single value \<open>Number(token)\<close>. \<open>Number\<close> of a string of digits
  is its decimal value when that value is at most \<open>2 ^ 53\<close>.
\<close>

theorem ranking_token_decoding:
  assumes "j < length toks"
  shows "processRankings toks ! j =
           (if isTie (toks ! j) then
              \<lparr>rank = j + 1,
               candidates =
                 [Number (takeWhile isDigit (toks ! j)),
                  Number (tl (dropWhile isDigit (toks ! j)))]\<rparr>
            else if toks ! j = ''-'' then \<lparr>rank = j + 1, candidates = []\<rparr>
            else \<lparr>rank = j + 1, candidates = [Number (toks ! j)]\<rparr>)
         \<and> (isTie (toks ! j) \<longrightarrow>
              toks ! j = takeWhile isDigit (toks ! j) @ CHR ''='' # tl (dropWhile isDigit (toks ! j))
              \<and> takeWhile isDigit (toks ! j) \<noteq> [] \<and> list_all isDigit (takeWhile isDigit (toks ! j))
              \<and> tl (dropWhile isDigit (toks ! j)) \<noteq> []
              \<and> list_all isDigit (tl (dropWhile isDigit (toks ! j))))
         \<and> (ds \<noteq> [] \<and> list_all isDigit ds \<and> digitsValue 10 ds \<le> 2 ^ 53 \<longrightarrow>
              Number ds = Num (of_int (digitsValue 10 ds)))"
proof (intro conjI impI)
  show "processRankings toks ! j =
           (if isTie (toks ! j) then
              \<lparr>rank = j + 1,
               candidates =
                 [Number (takeWhile isDigit (toks ! j)),
                  Number (tl (dropWhile isDigit (toks ! j)))]\<rparr>
            else if toks ! j = ''-'' then \<lparr>rank = j + 1, candidates = []\<rparr>
            else \<lparr>rank = j + 1, candidates = [Number (toks ! j)]\<rparr>)"
    by (simp add: nth_processRankings [OF assms] isSkip_def isTie_split)
next
  assume t: "isTie (toks ! j)"
  show "toks ! j = takeWhile isDigit (toks ! j) @ CHR ''='' # tl (dropWhile isDigit (toks ! j))"
    by (rule isTie_parts(1) [OF t, symmetric])
  show "takeWhile isDigit (toks ! j) \<noteq> []" by (rule isTie_parts(2) [OF t])
  show "list_all isDigit (takeWhile isDigit (toks ! j))" by (rule isTie_parts(4) [OF t])
  show "tl (dropWhile isDigit (toks ! j)) \<noteq> []" by (rule isTie_parts(3) [OF t])
  show "list_all isDigit (tl (dropWhile isDigit (toks ! j)))" by (rule isTie_parts(5) [OF t])
next
  assume "ds \<noteq> [] \<and> list_all isDigit ds \<and> digitsValue 10 ds \<le> 2 ^ 53"
  then show "Number ds = Num (of_int (digitsValue 10 ds))"
    using Number_digits_exact by blast
qed

theorem ranking_token_decoding_witness:
  "(1::nat) < length [''12'', ''2=3'', ''-'']
   \<and> isTie ([''12'', ''2=3'', ''-''] ! 1)
   \<and> processRankings [''12'', ''2=3'', ''-''] ! 1 =
       \<lparr>rank = 2, candidates = [Number ''2'', Number ''3'']\<rparr>
   \<and> ''12'' \<noteq> [] \<and> list_all isDigit ''12'' \<and> digitsValue 10 ''12'' \<le> 2 ^ 53
   \<and> Number ''12'' = Num 12"
proof -
  have h1: "(1::nat) < length [''12'', ''2=3'', ''-'']" by simp
  have t: "isTie ([''12'', ''2=3'', ''-''] ! 1)" by code_simp
  have p: "takeWhile isDigit ([''12'', ''2=3'', ''-''] ! 1) = ''2''"
    "tl (dropWhile isDigit ([''12'', ''2=3'', ''-''] ! 1)) = ''3''"
    by code_simp+
  have v: "digitsValue 10 ''12'' = 12" by code_simp
  have "list_all isDigit ''12''" by code_simp
  then have d: "''12'' \<noteq> [] \<and> list_all isDigit ''12'' \<and> digitsValue 10 ''12'' \<le> 2 ^ 53"
    unfolding v by simp
  note dec = ranking_token_decoding [OF h1, of "''12''"]
  from dec t have "processRankings [''12'', ''2=3'', ''-''] ! 1 =
       \<lparr>rank = 2, candidates = [Number ''2'', Number ''3'']\<rparr>"
    by (simp only: p if_True) simp
  moreover from dec d have "Number ''12'' = Num 12"
    by (simp only: v) simp
  ultimately show ?thesis using h1 t d by blast
qed

theorem ranking_token_counterexample:
  "processRankings [''x'', ''1.5'', ''9007199254740993'', ''9007199254740993=1''] =
     [\<lparr>rank = 1, candidates = [NaN]\<rparr>,
      \<lparr>rank = 2, candidates = [Num (3 / 2)]\<rparr>,
      \<lparr>rank = 3, candidates = [Num 9007199254740992]\<rparr>,
      \<lparr>rank = 4, candidates = [Num 9007199254740992, Num 1]\<rparr>]"
  by code_simp

text \<open>
  C5, as the code has it: when the line after the header consists of pieces of a minus
  sign and digits, separated by spaces, it passes the test \<open>/^(-\d+\s*)+$/\<close>, it is
  consumed, and \<open>withdrawnCandidates\<close> is the list of \<open>Number\<close> of the digits of each
  piece, in order: each entry is a non-negative number or \<open>Infinity\<close>, and it is the
  decimal value of the digits when that value is at most \<open>2 ^ 53\<close>. When the line fails
  the test (or there is none), the list is empty and all the lines after the header are
  left for the ballots.
\<close>

theorem withdrawn_line_extraction:
  "(parse bltText = Inr res \<longrightarrow>
      withdrawnCandidates res = fst (shiftWithdrawn (tl (cleanedLines bltText))) \<and>
      ballots res = map ballotOf (ballotLines (snd (shiftWithdrawn (tl (cleanedLines bltText))))))
   \<and> shiftWithdrawn [] = ([], [])
   \<and> (\<not> isWithdrawnLine (Some other) \<longrightarrow> shiftWithdrawn (other # ls) = ([], other # ls))
   \<and> (hd (split CHR '' '' spaced) \<noteq> [] \<and>
       (\<forall>q\<in>set (split CHR '' '' spaced).
          q = [] \<or> (\<exists>d. q = CHR ''-'' # d \<and> d \<noteq> [] \<and> list_all isDigit d)) \<longrightarrow>
        isWithdrawnLine (Some spaced) \<and>
        shiftWithdrawn (spaced # ls) =
          (map (\<lambda>q. Number (tl q)) (filter (\<lambda>q. q \<noteq> []) (split CHR '' '' spaced)), ls))
   \<and> (ds \<noteq> [] \<and> list_all isDigit ds \<longrightarrow>
        (Number ds = PosInfinity \<or> (\<exists>v\<ge>0. Number ds = Num v)) \<and>
        (digitsValue 10 ds \<le> 2 ^ 53 \<longrightarrow> Number ds = Num (of_int (digitsValue 10 ds))))"
proof (intro conjI impI)
  assume p: "parse bltText = Inr res"
  show "withdrawnCandidates res = fst (shiftWithdrawn (tl (cleanedLines bltText)))"
    by (rule parse_InrD(2) [OF p])
  show "ballots res = map ballotOf (ballotLines (snd (shiftWithdrawn (tl (cleanedLines bltText)))))"
    by (rule parse_InrD(3) [OF p])
next
  show "shiftWithdrawn [] = ([], [])"
    by (simp add: shiftWithdrawn_def isWithdrawnLine_def elementAt_def)
next
  assume "\<not> isWithdrawnLine (Some other)"
  then show "shiftWithdrawn (other # ls) = ([], other # ls)"
    by (simp add: shiftWithdrawn_def elementAt_def)
next
  assume a: "hd (split CHR '' '' spaced) \<noteq> [] \<and>
       (\<forall>q\<in>set (split CHR '' '' spaced).
          q = [] \<or> (\<exists>d. q = CHR ''-'' # d \<and> d \<noteq> [] \<and> list_all isDigit d))"
  then show w: "isWithdrawnLine (Some spaced)"
    using withdrawnGroups_spaced by (simp add: isWithdrawnLine_def)
  from a have "withdrawnNumbers spaced =
      map (\<lambda>q. Number (tl q)) (filter (\<lambda>q. q \<noteq> []) (split CHR '' '' spaced))"
    using withdrawnNumbers_spaced by blast
  with w show "shiftWithdrawn (spaced # ls) =
          (map (\<lambda>q. Number (tl q)) (filter (\<lambda>q. q \<noteq> []) (split CHR '' '' spaced)), ls)"
    by (simp add: shiftWithdrawn_def elementAt_def)
next
  assume "ds \<noteq> [] \<and> list_all isDigit ds"
  then show "Number ds = PosInfinity \<or> (\<exists>v\<ge>0. Number ds = Num v)"
    using Number_digits_nonneg by blast
next
  assume "ds \<noteq> [] \<and> list_all isDigit ds" and "digitsValue 10 ds \<le> 2 ^ 53"
  then show "Number ds = Num (of_int (digitsValue 10 ds))"
    using Number_digits_exact by blast
qed

theorem withdrawn_line_extraction_witness:
  "parse scenarioA = Inr scenarioAResult
   \<and> withdrawnCandidates scenarioAResult = fst (shiftWithdrawn (tl (cleanedLines scenarioA)))
   \<and> \<not> isWithdrawnLine (Some ''1 1 0'')
   \<and> shiftWithdrawn [''1 1 0'', ''1 1 0''] = ([], [''1 1 0'', ''1 1 0''])
   \<and> split CHR '' '' ''-1  -3'' = [CHR ''-'' # ''1'', [], CHR ''-'' # ''3'']
   \<and> list_all isDigit ''1'' \<and> list_all isDigit ''3''
   \<and> isWithdrawnLine (Some ''-1  -3'')
   \<and> shiftWithdrawn [''-1  -3'', ''1 1 0''] = ([Number ''1'', Number ''3''], [''1 1 0''])
   \<and> ''3'' \<noteq> [] \<and> digitsValue 10 ''3'' \<le> 2 ^ 53
   \<and> Number ''3'' = Num 3"
proof -
  have s: "split CHR '' '' ''-1  -3'' = [''-1'', [], ''-3'']" by code_simp
  have h1: "hd (split CHR '' '' ''-1  -3'') \<noteq> []" unfolding s by simp
  have d: "list_all isDigit ''1''" "list_all isDigit ''3''" by code_simp+
  have h2: "\<forall>q\<in>set (split CHR '' '' ''-1  -3'').
          q = [] \<or> (\<exists>d. q = CHR ''-'' # d \<and> d \<noteq> [] \<and> list_all isDigit d)"
    unfolding s using d by simp
  have h3: "\<not> isWithdrawnLine (Some ''1 1 0'')" by code_simp
  have v: "digitsValue 10 ''3'' = 3" by code_simp
  have b: "digitsValue 10 ''3'' \<le> 2 ^ 53" unfolding v by simp
  note t = withdrawn_line_extraction
    [of scenarioA scenarioAResult "''1 1 0''" "[''1 1 0'']" "''-1  -3''" "''3''"]
  from t scenarioA_parse
  have c1: "withdrawnCandidates scenarioAResult = fst (shiftWithdrawn (tl (cleanedLines scenarioA)))"
    by blast
  from t h1 h2 have c2: "isWithdrawnLine (Some ''-1  -3'')"
    and c3: "shiftWithdrawn [''-1  -3'', ''1 1 0''] =
          (map (\<lambda>q. Number (tl q)) (filter (\<lambda>q. q \<noteq> []) (split CHR '' '' ''-1  -3'')), [''1 1 0''])"
    by blast+
  from c3 have c4: "shiftWithdrawn [''-1  -3'', ''1 1 0''] = ([Number ''1'', Number ''3''], [''1 1 0''])"
    unfolding s by simp
  from t h3 have c6: "shiftWithdrawn [''1 1 0'', ''1 1 0''] = ([], [''1 1 0'', ''1 1 0''])"
    by blast
  from t d(2) b have "Number ''3'' = Num (of_int (digitsValue 10 ''3''))" by blast
  then have c7: "Number ''3'' = Num 3" by (simp add: v)
  from scenarioA_parse c1 h3 c6 s d c2 c4 b c7 show ?thesis by simp
qed

theorem withdrawn_zero_counterexample:
  "parse ''1 1\<newline>-0 -9007199254740993\<newline>0\<newline>A\<newline>T'' =
       Inr \<lparr>withdrawnCandidates = [Num 0, Num 9007199254740992],
            numberOfCandidates = Some (Num 1),
            numberOfSeats = Some (Num 1),
            electionName = Some ''T'',
            ballots = [],
            candidatesObj = candidatesOf [''A'']\<rparr>"
proof -
  have c: "parseConstants ''1 1\<newline>-0 -9007199254740993\<newline>0\<newline>A\<newline>T'' =
     (''1 1'' # [''-0 -9007199254740993'', ''0'', ''A'', ''T''], [Num 0, Num 9007199254740992],
      Some (Num 1), Some (Num 1), Some ''T'', [], [''A''])"
    by code_simp
  show ?thesis unfolding parse_parseConstants [OF c] by simp
qed

end
